theory Spec2Isabelle
  imports Main "HOL-Library.Sublist" "HOL-Library.AList"
begin

unbundle bit_operations_syntax

section \<open>Python strings\<close>

text \<open>
  Python \<open>str\<close> and \<open>bytes\<close> values are modelled as \<open>string\<close>; the protocol text
  handled here is ASCII, where \<open>encode('utf-8')\<close> and \<open>decode('utf-8')\<close> are the
  identity.
\<close>

abbreviation LF :: char where "LF \<equiv> CHR 0x0A"
abbreviation DQUOTE :: char where "DQUOTE \<equiv> CHR 0x22"
abbreviation BACKSLASH :: char where "BACKSLASH \<equiv> CHR 0x5C"

text \<open>\<open>s.replace(c, new)\<close> for a pattern \<open>c\<close> of one character.\<close>

definition replace :: "char \<Rightarrow> string \<Rightarrow> string \<Rightarrow> string" where
  "replace c new s = concat (map (\<lambda>x. if x = c then new else [x]) s)"

text \<open>\<open>s.split(sep, 1)\<close>: \<open>None\<close> stands for the one-element list (no separator).\<close>

fun split_once :: "string \<Rightarrow> string \<Rightarrow> (string \<times> string) option" where
  "split_once sep [] = None"
| "split_once sep (c # cs) =
     (if prefix sep (c # cs) then Some ([], drop (length sep) (c # cs))
      else map_option (\<lambda>(k, v). (c # k, v)) (split_once sep cs))"

text \<open>\<open>s.split(sep)\<close> for a separator of one character.\<close>

fun split_char :: "char \<Rightarrow> string \<Rightarrow> string list" where
  "split_char c [] = [[]]"
| "split_char c (x # xs) =
     (if x = c then [] # split_char c xs
      else (case split_char c xs of [] \<Rightarrow> [[x]] | l # ls \<Rightarrow> (x # l) # ls))"

text \<open>\<open>s.partition(sep)\<close> and \<open>s.rpartition(sep)\<close> for a separator of one character.\<close>

definition partition_char :: "char \<Rightarrow> string \<Rightarrow> string \<times> bool \<times> string" where
  "partition_char c s =
     (if c \<in> set s then (takeWhile (\<lambda>x. x \<noteq> c) s, True, tl (dropWhile (\<lambda>x. x \<noteq> c) s))
      else (s, False, []))"

definition rpartition_char :: "char \<Rightarrow> string \<Rightarrow> string \<times> bool \<times> string" where
  "rpartition_char c s =
     (if c \<in> set s
      then (rev (tl (dropWhile (\<lambda>x. x \<noteq> c) (rev s))), True, rev (takeWhile (\<lambda>x. x \<noteq> c) (rev s)))
      else ([], False, s))"

definition join :: "string \<Rightarrow> string list \<Rightarrow> string" where
  "join sep xs = (case xs of [] \<Rightarrow> [] | y # ys \<Rightarrow> y @ concat (map (\<lambda>z. sep @ z) ys))"

definition lower_char :: "char \<Rightarrow> char" where
  "lower_char c =
     (case map_of (zip ''ABCDEFGHIJKLMNOPQRSTUVWXYZ'' ''abcdefghijklmnopqrstuvwxyz'') c of
        None \<Rightarrow> c | Some d \<Rightarrow> d)"

definition upper_char :: "char \<Rightarrow> char" where
  "upper_char c =
     (case map_of (zip ''abcdefghijklmnopqrstuvwxyz'' ''ABCDEFGHIJKLMNOPQRSTUVWXYZ'') c of
        None \<Rightarrow> c | Some d \<Rightarrow> d)"

definition lower :: "string \<Rightarrow> string" where "lower s = map lower_char s"
definition upper :: "string \<Rightarrow> string" where "upper s = map upper_char s"

definition is_digit :: "char \<Rightarrow> bool" where
  "is_digit c = (c \<in> set ''0123456789'')"

definition digit_val :: "char \<Rightarrow> nat" where
  "digit_val c = (case map_of (zip ''0123456789'' [0, 1, 2, 3, 4, 5, 6, 7, 8, 9]) c of
                    None \<Rightarrow> 0 | Some d \<Rightarrow> d)"

text \<open>\<open>int(s)\<close> on a string of decimal digits.\<close>

definition int_of_digits :: "string \<Rightarrow> int" where
  "int_of_digits s = int (foldl (\<lambda>n c. 10 * n + digit_val c) 0 s)"

text \<open>\<open>str(n)\<close> for an integer.\<close>

fun str_nat :: "nat \<Rightarrow> string" where
  "str_nat n = (if n < 10 then [''0123456789'' ! n]
                else str_nat (n div 10) @ [''0123456789'' ! (n mod 10)])"

declare str_nat.simps [simp del]

definition str_int :: "int \<Rightarrow> string" where
  "str_int i = (if i < 0 then CHR ''-'' # str_nat (nat (- i)) else str_nat (nat i))"

section \<open>errors.py and the exceptions of the Python runtime\<close>

datatype pyval =
    PNone
  | PTrue
  | PInt int
  | PStr string
  | PTuple string string
  | PList "pyval list"
  | PDict "(string \<times> pyval) list"

datatype error =
    ConnectionError
  | ReplyError int int string string string
  | ProtocolError pyval
  | CommandError
  | CancelledError
  | InvalidStateError
  | ValueError
  | TypeError
  | IndexError
  | KeyError
  | UnboundLocalError
  | AssertionError
  | AttributeError
  | RuntimeError

section \<open>request.py: the reply transformations\<close>

type_synonym reply = "(string \<times> string) list"

definition raw :: "reply \<Rightarrow> pyval" where
  "raw reply = PList (map (\<lambda>(k, v). PTuple k v) reply)"

definition transform_empty :: "reply \<Rightarrow> error + pyval" where
  "transform_empty reply = (if reply = [] then Inr PTrue else Inl (ProtocolError (raw reply)))"

text \<open>\<open>lists.setdefault(field, []).append(value)\<close> on a dictionary kept in insertion order.\<close>

fun setdefault_append :: "string \<Rightarrow> 'v \<Rightarrow> (string \<times> 'v list) list \<Rightarrow> (string \<times> 'v list) list" where
  "setdefault_append k v [] = [(k, [v])]"
| "setdefault_append k v ((k', vs) # d) =
     (if k' = k then (k', vs @ [v]) # d else (k', vs) # setdefault_append k v d)"

definition transform_lists :: "(string \<times> 'v) list \<Rightarrow> (string \<times> 'v list) list" where
  "transform_lists reply = foldl (\<lambda>lists (field, v). setdefault_append field v lists) [] reply"

text \<open>\<open>dict(reply)\<close>: the last value of a key wins, at the position of its first occurrence.\<close>

definition dict :: "(string \<times> 'v) list \<Rightarrow> (string \<times> 'v) list" where
  "dict reply = foldl (\<lambda>d (k, v). AList.update k v d) [] reply"

text \<open>
  The loop of \<open>transform_subsets\<close>. The current \<open>subset\<close> is the last one appended to
  \<open>subsets\<close>; an item before any marker finds \<open>subset\<close> unbound.
\<close>

fun subsets_loop :: "string list \<Rightarrow> (string \<times> reply) list \<Rightarrow> reply \<Rightarrow> error + (string \<times> reply) list" where
  "subsets_loop markers subsets [] = Inr subsets"
| "subsets_loop markers subsets (item # reply) =
     (if fst item \<in> set markers then subsets_loop markers (subsets @ [(fst item, [item])]) reply
      else if subsets = [] then Inl UnboundLocalError
      else subsets_loop markers
             (butlast subsets @ [(fst (last subsets), snd (last subsets) @ [item])]) reply)"

definition transform_subsets :: "string list \<Rightarrow> reply \<Rightarrow> error + (string \<times> reply list) list" where
  "transform_subsets markers reply =
     (case subsets_loop markers [] reply of
        Inl e \<Rightarrow> Inl e
      | Inr subsets \<Rightarrow> Inr (transform_lists (map (\<lambda>(field, subset). (field, dict subset)) subsets)))"

definition default_markers :: "string list" where
  "default_markers = [''file'', ''directory'', ''playlist'']"

definition transform_single_value :: "reply \<Rightarrow> error + pyval" where
  "transform_single_value reply =
     (case reply of [(k, v)] \<Rightarrow> Inr (PStr v) | _ \<Rightarrow> Inl (ProtocolError (raw reply)))"

definition transform_single_list :: "reply \<Rightarrow> string list" where
  "transform_single_list reply = map snd reply"

definition pydict :: "reply \<Rightarrow> pyval" where
  "pydict d = PDict (map (\<lambda>(k, v). (k, PStr v)) d)"

definition transform_single_subset :: "reply \<Rightarrow> error + pyval" where
  "transform_single_subset reply =
     (case reply of
        [] \<Rightarrow> Inr (PList [])
      | item # _ \<Rightarrow>
          (case transform_subsets [fst item] reply of
             Inl e \<Rightarrow> Inl e
           | Inr d \<Rightarrow> (case map_of d (fst item) of
                        None \<Rightarrow> Inl KeyError
                      | Some subsets \<Rightarrow> Inr (PList (map pydict subsets)))))"

text \<open>The values of the \<open>COMMANDS\<close> table.\<close>

datatype transform =
    NoTransform
  | LambdaNone
  | TransformEmpty
  | TransformLists
  | TransformSubsets
  | TransformSingleValue
  | TransformSingleList
  | TransformSingleSubset
  | Dict

text \<open>
  \<open>lines if self._transform is None else self._transform(lines)\<close>. The entries
  \<open>lambda: None\<close> of the table take no argument, so the call raises \<open>TypeError\<close>.
\<close>

fun apply_transform :: "transform \<Rightarrow> reply \<Rightarrow> error + pyval" where
  "apply_transform NoTransform lines = Inr (raw lines)"
| "apply_transform LambdaNone lines = Inl TypeError"
| "apply_transform TransformEmpty lines = transform_empty lines"
| "apply_transform TransformLists lines =
     Inr (PDict (map (\<lambda>(k, vs). (k, PList (map PStr vs))) (transform_lists lines)))"
| "apply_transform TransformSubsets lines =
     (case transform_subsets default_markers lines of
        Inl e \<Rightarrow> Inl e
      | Inr d \<Rightarrow> Inr (PDict (map (\<lambda>(k, subsets). (k, PList (map pydict subsets))) d)))"
| "apply_transform TransformSingleValue lines = transform_single_value lines"
| "apply_transform TransformSingleList lines = Inr (PList (map PStr (transform_single_list lines)))"
| "apply_transform TransformSingleSubset lines = transform_single_subset lines"
| "apply_transform Dict lines = Inr (pydict (dict lines))"

definition COMMANDS :: "(string \<times> transform) list" where
  "COMMANDS = [
    (''add'', TransformEmpty),
    (''addid'', TransformSingleValue),
    (''addtagid'', NoTransform),
    (''channels'', TransformSingleList),
    (''clear'', TransformEmpty),
    (''clearerror'', TransformEmpty),
    (''cleartagid'', NoTransform),
    (''close'', LambdaNone),
    (''commands'', TransformSingleList),
    (''config'', Dict),
    (''consume'', TransformEmpty),
    (''count'', Dict),
    (''crossfade'', TransformEmpty),
    (''currentsong'', Dict),
    (''decoders'', TransformLists),
    (''delete'', TransformEmpty),
    (''deleteid'', TransformEmpty),
    (''delpartition'', TransformEmpty),
    (''disableoutput'', TransformEmpty),
    (''enableoutput'', TransformEmpty),
    (''find'', TransformSingleSubset),
    (''findadd'', TransformEmpty),
    (''kill'', LambdaNone),
    (''list'', TransformSingleList),
    (''listall'', TransformLists),
    (''listallinfo'', TransformSubsets),
    (''listfiles'', TransformSubsets),
    (''listmounts'', TransformSingleSubset),
    (''listneighbors'', TransformSingleSubset),
    (''listpartitions'', TransformSingleList),
    (''listplaylist'', TransformSingleList),
    (''listplaylistinfo'', TransformSingleSubset),
    (''listplaylists'', TransformSingleSubset),
    (''load'', TransformEmpty),
    (''lsinfo'', TransformSubsets),
    (''mixrampdb'', TransformEmpty),
    (''mixrampdelay'', TransformEmpty),
    (''mount'', NoTransform),
    (''move'', TransformEmpty),
    (''moveid'', TransformEmpty),
    (''moveoutput'', TransformEmpty),
    (''next'', TransformEmpty),
    (''newpartition'', TransformEmpty),
    (''notcommands'', TransformSingleList),
    (''outputs'', TransformSingleSubset),
    (''partition'', TransformEmpty),
    (''password'', TransformEmpty),
    (''pause'', TransformEmpty),
    (''ping'', TransformEmpty),
    (''play'', TransformEmpty),
    (''playid'', TransformEmpty),
    (''playlist'', TransformSingleList),
    (''playlistadd'', TransformEmpty),
    (''playlistclear'', TransformEmpty),
    (''playlistdelete'', TransformEmpty),
    (''playlistfind'', TransformSingleSubset),
    (''playlistid'', TransformSingleSubset),
    (''playlistinfo'', TransformSingleSubset),
    (''playlistmove'', TransformEmpty),
    (''playlistsearch'', TransformSingleSubset),
    (''plchanges'', TransformSingleSubset),
    (''plchangesposid'', TransformSingleSubset),
    (''previous'', TransformEmpty),
    (''prio'', TransformEmpty),
    (''prioid'', TransformEmpty),
    (''random'', TransformEmpty),
    (''rangeid'', TransformEmpty),
    (''readcomments'', Dict),
    (''readmessages'', TransformSingleSubset),
    (''rename'', TransformEmpty),
    (''repeat'', TransformEmpty),
    (''replay_gain_mode'', TransformEmpty),
    (''replay_gain_status'', TransformSingleValue),
    (''rescan'', TransformSingleValue),
    (''rm'', TransformEmpty),
    (''save'', TransformEmpty),
    (''search'', TransformSingleSubset),
    (''searchadd'', TransformEmpty),
    (''searchaddpl'', TransformEmpty),
    (''seek'', TransformEmpty),
    (''seekcur'', TransformEmpty),
    (''seekid'', TransformEmpty),
    (''sendmessage'', TransformEmpty),
    (''setvol'', TransformEmpty),
    (''shuffle'', TransformEmpty),
    (''single'', TransformEmpty),
    (''stats'', Dict),
    (''status'', Dict),
    (''sticker'', NoTransform),
    (''sticker_get'', TransformSingleValue),
    (''sticker_set'', TransformEmpty),
    (''sticker_delete'', TransformEmpty),
    (''sticker_list'', TransformSingleList),
    (''sticker_find'', TransformSingleSubset),
    (''stop'', TransformEmpty),
    (''subscribe'', TransformEmpty),
    (''swap'', TransformEmpty),
    (''swapid'', TransformEmpty),
    (''tagtypes'', TransformSingleList),
    (''toggleoutput'', TransformEmpty),
    (''unmount'', NoTransform),
    (''unsubscribe'', TransformEmpty),
    (''update'', TransformSingleValue),
    (''urlhandlers'', TransformSingleList),
    (''volume'', TransformEmpty)]"

section \<open>request.py: the protocol constants and the error pattern\<close>

definition SUCCESS :: string where "SUCCESS = ''OK''"
definition WELCOME_PREFIX :: string where "WELCOME_PREFIX = ''OK MPD ''"
definition LIST_SUCCESS :: string where "LIST_SUCCESS = ''list_OK''"
definition DELIM :: string where "DELIM = '': ''"

definition strip_prefix :: "string \<Rightarrow> string \<Rightarrow> string option" where
  "strip_prefix p s = (if prefix p s then Some (drop (length p) s) else None)"

text \<open>
  \<open>re.match(ERROR_RE, line)\<close> for
  \<open>ERROR_RE = '^ACK \[([0-9]+)@([0-9]+)\] {([^}]*)} (.*)$'\<close>: the four groups, the first two
  through \<open>int\<close>. The pattern is deterministic: each repetition stops at the first character
  outside its class, \<open>.\<close> leaves out the line feed and \<open>$\<close> stands at the end or before a
  final line feed.
\<close>

definition match_error :: "string \<Rightarrow> (int \<times> int \<times> string \<times> string) option" where
  "match_error line =
     (case strip_prefix ''ACK ['' line of
        None \<Rightarrow> None
      | Some r1 \<Rightarrow>
          if takeWhile is_digit r1 = [] then None
          else
            (case strip_prefix ''@'' (dropWhile is_digit r1) of
               None \<Rightarrow> None
             | Some r2 \<Rightarrow>
                 if takeWhile is_digit r2 = [] then None
                 else
                   (case strip_prefix ''] {'' (dropWhile is_digit r2) of
                      None \<Rightarrow> None
                    | Some r3 \<Rightarrow>
                        (case strip_prefix ''} '' (dropWhile (\<lambda>x. x \<noteq> CHR ''}'') r3) of
                           None \<Rightarrow> None
                         | Some m \<Rightarrow>
                             if dropWhile (\<lambda>x. x \<noteq> LF) m = [] \<or> dropWhile (\<lambda>x. x \<noteq> LF) m = [LF]
                             then Some (int_of_digits (takeWhile is_digit r1),
                                        int_of_digits (takeWhile is_digit r2),
                                        takeWhile (\<lambda>x. x \<noteq> CHR ''}'') r3,
                                        takeWhile (\<lambda>x. x \<noteq> LF) m)
                             else None))))"

section \<open>request.py: events\<close>

text \<open>\<open>Event\<close> is an \<open>IntFlag\<close>: bit \<open>i\<close> for the \<open>i\<close>-th name of the list.\<close>

definition event_names :: "string list" where
  "event_names = [''DATABASE'', ''UPDATE'', ''STORED_PLAYLIST'', ''PLAYLIST'', ''PLAYER'', ''MIXER'',
     ''OUTPUT'', ''OPTIONS'', ''PARTITION'', ''STICKER'', ''SUBSCRIPTION'', ''MESSAGE'',
     ''CONNECT'', ''IDLE'', ''TIMEOUT'']"

definition EVENTS :: "(string \<times> int) list" where
  "EVENTS = zip event_names (map (\<lambda>i. 2 ^ i) [0 ..< length event_names])"

definition NONE :: int where "NONE = 0"
definition PLAYER :: int where "PLAYER = 16"
definition MIXER :: int where "MIXER = 32"
definition CONNECT :: int where "CONNECT = 4096"
definition IDLE :: int where "IDLE = 8192"
definition TIMEOUT :: int where "TIMEOUT = 16384"
definition ANY :: int where "ANY = CONNECT - 1"

text \<open>\<open>Event[name]\<close>, with the two names added after the enumeration.\<close>

definition Event :: "string \<Rightarrow> error + int" where
  "Event name =
     (case map_of (EVENTS @ [(''NONE'', NONE), (''ANY'', ANY)]) name of
        None \<Rightarrow> Inl KeyError
      | Some e \<Rightarrow> Inr e)"

section \<open>asyncio futures and the requests\<close>

datatype fstate = Pending | Result pyval | Exception error | Cancelled

text \<open>\<open>Future.exception()\<close> and \<open>Future.result()\<close>.\<close>

fun future_exception :: "fstate \<Rightarrow> error + error option" where
  "future_exception Pending = Inl InvalidStateError"
| "future_exception Cancelled = Inl CancelledError"
| "future_exception (Exception e) = Inr (Some e)"
| "future_exception (Result v) = Inr None"

fun future_result :: "fstate \<Rightarrow> error + pyval" where
  "future_result Pending = Inl InvalidStateError"
| "future_result Cancelled = Inl CancelledError"
| "future_result (Exception e) = Inl e"
| "future_result (Result v) = Inr v"

text \<open>
  The callbacks handed to the event loop: the done callbacks the program registers on its
  requests, the timer callback of a subscription, and the tasks it starts.
\<close>

datatype callback =
    Unlog_request nat nat
  | Waiting_list_remove nat
  | Cancel_timeout nat
  | Unidle nat
  | Idle_task_resume nat
  | Process_reply "string list"
  | Idle_task
  | Disconnect_task nat

datatype kind = Welcome | CommandLine | Command | Idle | CommandList | Passive

text \<open>
  A request object. \<open>rexecutor\<close> is \<open>_executor\<close>, \<open>fut\<close> the state of the future it
  inherits from, \<open>done_callbacks\<close> the callbacks added while it was pending; the other
  fields are those of the subclasses.
\<close>

record request =
  kind :: kind
  rexecutor :: nat
  fut :: fstate
  done_callbacks :: "callback list"
  commandline :: string
  rtransform :: transform
  commands :: "nat list"
  event_mask :: int
  timeout :: "nat option"
  timeout_handle :: "nat option"

section \<open>client.py: the data\<close>

text \<open>
  The repository holds two versions of \<open>client.py\<close>: \<open>ampd/client.py\<close> (0.2.12) and
  \<open>src/ampd/client.py\<close> (0.3.3). A function that differs between them takes the version.
\<close>

datatype version = V0_2_12 | V0_3_3

definition FLAG_CONNECTED :: int where "FLAG_CONNECTED = 1"
definition FLAG_ACTIVE :: int where "FLAG_ACTIVE = 2"
definition STATE_DISCONNECTED :: int where "STATE_DISCONNECTED = 0"
definition STATE_CONNECTING :: int where "STATE_CONNECTING = FLAG_ACTIVE"
definition STATE_IDLE :: int where "STATE_IDLE = FLAG_CONNECTED"
definition STATE_ACTIVE :: int where "STATE_ACTIVE = FLAG_CONNECTED OR FLAG_ACTIVE"

definition DISCONNECT_NOT_CONNECTED :: nat where "DISCONNECT_NOT_CONNECTED = 0"
definition DISCONNECT_FAILED_CONNECT :: nat where "DISCONNECT_FAILED_CONNECT = 1"
definition DISCONNECT_ERROR :: nat where "DISCONNECT_ERROR = 2"
definition DISCONNECT_RECONNECT :: nat where "DISCONNECT_RECONNECT = 4"
definition DISCONNECT_SHUTDOWN :: nat where "DISCONNECT_SHUTDOWN = 5"
definition DISCONNECT_PASSWORD :: nat where "DISCONNECT_PASSWORD = 6"

text \<open>
  The executors form a tree below the client's own executor. A node holds its identity,
  whether \<open>_client\<close> is set, its children, the requests it has logged and its two callback
  functions (named by numbers). \<open>_parent\<close> is the position in the tree: \<open>close\<close> is the only
  operation that detaches an executor, it clears \<open>_client\<close> when it does, and nothing attaches
  one again, so an executor that is not in the tree is a closed one.
\<close>

datatype executor =
  Executor (eid: nat) (has_client: bool) (children: "executor list") (requests: "nat list")
    (connect_cb_func: "nat option") (disconnect_cb_func: "nat option")

datatype timer_state = Armed | Timer_cancelled | Timer_fired

text \<open>What the program does, in order: futures completed, replies decoded, command lines
  written, requests taken from the queue with their reply, executors closed. The trace is not a field of the program.\<close>

datatype trace_entry =
    Resolved nat
  | Decoded nat
  | Write nat
  | Replied nat
  | Closed nat
  | Connecting_cancelled

text \<open>
  The client with what it reaches. \<open>active_queue\<close> is \<open>None\<close> while the attribute does not
  exist; \<open>active\<close> is the attribute \<open>_active\<close> of 0.2.12. \<open>reqs\<close> holds the request
  objects, \<open>wire\<close> the data handed to \<open>transport.write\<close>, \<open>ready\<close> the callbacks scheduled
  with \<open>call_soon\<close>, \<open>timers\<close> the handles of \<open>call_later\<close> with the request each one resolves,
  \<open>notifications\<close> the calls of the executors' callback functions, \<open>lines\<close> and
  \<open>incomplete_line\<close> the state of the protocol object.
\<close>

record client =
  executor :: executor
  waiting_list :: "nat list"
  state :: int
  protocol_version :: "pyval option"
  active_queue :: "nat list option"
  active :: bool
  reqs :: "nat \<Rightarrow> request"
  next_request :: nat
  wire :: "string list"
  transport_open :: bool
  protocol_disconnect_cb :: bool
  lines :: "string list"
  incomplete_line :: string
  ready :: "callback list"
  timers :: "(nat \<times> timer_state) list"
  connect_notifications :: "nat list"
  notifications :: "(nat \<times> nat \<times> string option) list"
  trace :: "trace_entry list"

datatype 'a outcome = Returns 'a | Raises error | Suspends

section \<open>request.py: futures and constructors\<close>

definition is_done :: "client \<Rightarrow> nat \<Rightarrow> bool" where
  "is_done w r = (fut (reqs w r) \<noteq> Pending)"

text \<open>
  A pending future takes its final state: its done callbacks are scheduled with
  \<open>call_soon\<close>, in the order they were added.
\<close>

definition finish :: "nat \<Rightarrow> fstate \<Rightarrow> client \<Rightarrow> client" where
  "finish r s w =
     w\<lparr>reqs := (reqs w)(r := (reqs w r)\<lparr>fut := s, done_callbacks := []\<rparr>),
       ready := ready w @ done_callbacks (reqs w r),
       trace := trace w @ [Resolved r]\<rparr>"

text \<open>\<open>Future.set_exception\<close> (not overridden) and \<open>Future.cancel\<close>.\<close>

definition set_exception :: "nat \<Rightarrow> error \<Rightarrow> client \<Rightarrow> unit outcome \<times> client" where
  "set_exception r e w =
     (if is_done w r then (Raises InvalidStateError, w) else (Returns (), finish r (Exception e) w))"

definition cancel :: "nat \<Rightarrow> client \<Rightarrow> client" where
  "cancel r w = (if is_done w r then w else finish r Cancelled w)"

text \<open>\<open>Future.set_result\<close>, which \<open>Request\<close> overrides.\<close>

definition future_set_result :: "nat \<Rightarrow> pyval \<Rightarrow> client \<Rightarrow> unit outcome \<times> client" where
  "future_set_result r v w =
     (if is_done w r then (Raises InvalidStateError, w) else (Returns (), finish r (Result v) w))"

text \<open>\<open>Request.set_result\<close>: \<open>if not self.done(): super().set_result(result)\<close>.\<close>

definition Request_set_result :: "nat \<Rightarrow> pyval \<Rightarrow> client \<Rightarrow> unit outcome \<times> client" where
  "Request_set_result r v w = (if \<not> is_done w r then future_set_result r v w else (Returns (), w))"

text \<open>The client after a call of \<open>Request.set_result\<close>.\<close>

definition set_result :: "nat \<Rightarrow> pyval \<Rightarrow> client \<Rightarrow> client" where
  "set_result r v w = snd (Request_set_result r v w)"

definition add_done_callback :: "nat \<Rightarrow> callback \<Rightarrow> client \<Rightarrow> client" where
  "add_done_callback r cb w =
     (if is_done w r then w\<lparr>ready := ready w @ [cb]\<rparr>
      else w\<lparr>reqs := (reqs w)(r := (reqs w r)\<lparr>done_callbacks := done_callbacks (reqs w r) @ [cb]\<rparr>)\<rparr>)"

text \<open>\<open>Future.__await__\<close>: suspend while pending, then \<open>self.result()\<close>.\<close>

definition future_await :: "nat \<Rightarrow> client \<Rightarrow> pyval outcome \<times> client" where
  "future_await r w =
     (case fut (reqs w r) of
        Pending \<Rightarrow> (Suspends, w)
      | Result v \<Rightarrow> (Returns v, w)
      | Exception e \<Rightarrow> (Raises e, w)
      | Cancelled \<Rightarrow> (Raises CancelledError, w))"

definition blank_request :: "kind \<Rightarrow> nat \<Rightarrow> request" where
  "blank_request k e =
     \<lparr>kind = k, rexecutor = e, fut = Pending, done_callbacks = [], commandline = [],
      rtransform = NoTransform, commands = [], event_mask = 0, timeout = None,
      timeout_handle = None\<rparr>"

text \<open>Creating an object: the next free place of the store.\<close>

definition new_request :: "request \<Rightarrow> client \<Rightarrow> nat \<times> client" where
  "new_request q w =
     (next_request w, w\<lparr>reqs := (reqs w)(next_request w := q), next_request := Suc (next_request w)\<rparr>)"

definition RequestWelcome :: "nat \<Rightarrow> request" where
  "RequestWelcome e = blank_request Welcome e"

definition RequestCommandLine :: "nat \<Rightarrow> string \<Rightarrow> transform \<Rightarrow> request" where
  "RequestCommandLine e line t = (blank_request CommandLine e)\<lparr>commandline := line, rtransform := t\<rparr>"

datatype arg = ArgStr string | ArgInt int

text \<open>
  \<open>'"{}"'.format(arg.replace('"', '\\"')) if isinstance(arg, str) else str(arg)\<close>
\<close>

fun quote_arg :: "arg \<Rightarrow> string" where
  "quote_arg (ArgStr s) = [DQUOTE] @ replace DQUOTE [BACKSLASH, DQUOTE] s @ [DQUOTE]"
| "quote_arg (ArgInt i) = str_int i"

definition command_line :: "string \<Rightarrow> arg list \<Rightarrow> string" where
  "command_line name args = replace (CHR ''_'') '' '' name @ '' '' @ join '' '' (map quote_arg args)"

definition RequestCommand :: "nat \<Rightarrow> string \<Rightarrow> arg list \<Rightarrow> error + request" where
  "RequestCommand e name args =
     (case map_of COMMANDS name of
        None \<Rightarrow> Inl KeyError
      | Some t \<Rightarrow> Inr ((blank_request Command e)\<lparr>commandline := command_line name args, rtransform := t\<rparr>))"

definition RequestIdle :: "nat \<Rightarrow> request" where
  "RequestIdle e = (blank_request Idle e)\<lparr>commandline := ''idle'', rtransform := TransformSingleList\<rparr>"

text \<open>
  The arguments of \<open>RequestCommandList\<close>: requests given one by one, or a list of requests
  as the only argument.
\<close>

datatype commands_arg = Positional "nat list" | Iterable "nat list"

text \<open>
  \<open>tuple(commands[0])\<close> when the only argument is itself a request: the future is iterated,
  which raises \<open>RuntimeError\<close> while it is pending, gives its exception when it has one and
  nothing when it has a result.
\<close>

definition tuple_of_future :: "fstate \<Rightarrow> error + nat list" where
  "tuple_of_future s =
     (case s of
        Pending \<Rightarrow> Inl RuntimeError
      | Result v \<Rightarrow> Inr []
      | Exception x \<Rightarrow> Inl x
      | Cancelled \<Rightarrow> Inl CancelledError)"

definition RequestCommandList :: "nat \<Rightarrow> commands_arg \<Rightarrow> client \<Rightarrow> error + request" where
  "RequestCommandList e args w =
     (case (case args of
              Iterable cs \<Rightarrow> Inr cs
            | Positional cs \<Rightarrow>
                (case cs of [c] \<Rightarrow> tuple_of_future (fut (reqs w c)) | _ \<Rightarrow> Inr cs)) of
        Inl x \<Rightarrow> Inl x
      | Inr cs \<Rightarrow>
          if \<not> list_all (\<lambda>c. kind (reqs w c) = Command) cs then Inl CommandError
          else Inr ((blank_request CommandList e)
                 \<lparr>commandline := join [LF] ([''command_list_ok_begin''] @ map (\<lambda>c. commandline (reqs w c)) cs
                                             @ [''command_list_end'']),
                  commands := cs\<rparr>))"

definition RequestPassive :: "nat \<Rightarrow> int \<Rightarrow> nat option \<Rightarrow> request" where
  "RequestPassive e m t = (blank_request Passive e)\<lparr>event_mask := m, timeout := t\<rparr>"

section \<open>client.py: the executor tree\<close>

fun find_executor :: "nat \<Rightarrow> executor \<Rightarrow> executor option"
  and find_in :: "nat \<Rightarrow> executor list \<Rightarrow> executor option" where
  "find_executor i (Executor j c ch rq ccb dcb) =
     (if i = j then Some (Executor j c ch rq ccb dcb) else find_in i ch)"
| "find_in i [] = None"
| "find_in i (x # xs) = (case find_executor i x of Some y \<Rightarrow> Some y | None \<Rightarrow> find_in i xs)"

fun update_executor :: "nat \<Rightarrow> (executor \<Rightarrow> executor) \<Rightarrow> executor \<Rightarrow> executor" where
  "update_executor i f (Executor j c ch rq ccb dcb) =
     (if i = j then f (Executor j c ch rq ccb dcb)
      else Executor j c (map (update_executor i f) ch) rq ccb dcb)"

definition append_request :: "nat \<Rightarrow> executor \<Rightarrow> executor" where
  "append_request r x =
     Executor (eid x) (has_client x) (children x) (requests x @ [r]) (connect_cb_func x) (disconnect_cb_func x)"

definition remove_request :: "nat \<Rightarrow> executor \<Rightarrow> executor" where
  "remove_request r x =
     Executor (eid x) (has_client x) (children x) (remove1 r (requests x)) (connect_cb_func x) (disconnect_cb_func x)"

text \<open>\<open>Executor.__init__\<close> with a parent: the new executor takes the parent's client.\<close>

definition sub_executor :: "nat \<Rightarrow> nat \<Rightarrow> executor \<Rightarrow> executor" where
  "sub_executor new parent root =
     update_executor parent
       (\<lambda>x. Executor (eid x) (has_client x)
              (children x @ [Executor new (has_client x) [] [] None None])
              (requests x) (connect_cb_func x) (disconnect_cb_func x)) root"

text \<open>
  \<open>_connect_cb\<close> calls the executor's function, then the children's; \<open>_disconnect_cb\<close> the
  children's, then the executor's. The result lists the calls made, in order.
\<close>

fun connect_cb :: "executor \<Rightarrow> nat list" where
  "connect_cb (Executor i c ch rq ccb dcb) =
     (case ccb of None \<Rightarrow> [] | Some f \<Rightarrow> [f]) @ concat (map connect_cb ch)"

fun disconnect_cb :: "executor \<Rightarrow> nat \<Rightarrow> string option \<Rightarrow> (nat \<times> nat \<times> string option) list" where
  "disconnect_cb (Executor i c ch rq ccb dcb) reason message =
     concat (map (\<lambda>child. disconnect_cb child reason message) ch)
     @ (case dcb of None \<Rightarrow> [] | Some f \<Rightarrow> [(f, reason, message)])"

section \<open>client.py: sending and waiting\<close>

definition current_events :: "version \<Rightarrow> client \<Rightarrow> int" where
  "current_events ver w =
     (let idle = (if state w = STATE_IDLE then IDLE else 0);
          connected = (if state w AND FLAG_CONNECTED \<noteq> 0 then CONNECT else 0)
      in if ver = V0_2_12 then idle OR connected else idle)"

definition wait :: "version \<Rightarrow> nat \<Rightarrow> client \<Rightarrow> client" where
  "wait ver r w =
     (let event = current_events ver w AND event_mask (reqs w r)
      in if event \<noteq> 0 then set_result r (PInt event) w
         else add_done_callback r (Waiting_list_remove r) (w\<lparr>waiting_list := waiting_list w @ [r]\<rparr>))"

definition send :: "version \<Rightarrow> nat \<Rightarrow> client \<Rightarrow> unit outcome \<times> client" where
  "send ver r w0 =
     (let w = (if ver = V0_2_12 then w0\<lparr>active := True\<rparr> else w0) in
      if state w AND FLAG_CONNECTED = 0 then (Raises ConnectionError, w)
      else
        let w1 = (if kind (reqs w r) = Idle then w\<lparr>state := state w AND NOT FLAG_ACTIVE\<rparr>
                  else if state w AND FLAG_ACTIVE = 0
                  then w\<lparr>wire := wire w @ [''noidle'' @ [LF]], state := state w OR FLAG_ACTIVE\<rparr>
                  else w);
            w2 = w1\<lparr>wire := wire w1 @ [commandline (reqs w1 r) @ [LF]], trace := trace w1 @ [Write r]\<rparr>
        in (case active_queue w2 of
              None \<Rightarrow> (Raises AttributeError, w2)
            | Some q \<Rightarrow> (Returns (), w2\<lparr>active_queue := Some (q @ [r])\<rparr>)))"

text \<open>The loop of \<open>_event\<close> over a copy of the waiting list.\<close>

fun event_loop :: "version \<Rightarrow> int \<Rightarrow> bool \<Rightarrow> nat list \<Rightarrow> client \<Rightarrow> bool \<times> client" where
  "event_loop ver ev one [] w = (False, w)"
| "event_loop ver ev one (r # rs) w =
     (if event_mask (reqs w r) AND ev \<noteq> 0 then
        (let w1 = set_result r (PInt (event_mask (reqs w r) AND ev))
                    (if ver = V0_2_12 then w\<lparr>active := True\<rparr> else w)
         in if one then (True, w1) else event_loop ver ev one rs w1)
      else event_loop ver ev one rs w)"

definition event :: "version \<Rightarrow> int \<Rightarrow> bool \<Rightarrow> client \<Rightarrow> bool \<times> client" where
  "event ver ev one w = event_loop ver ev one (waiting_list w) w"

definition log_request :: "version \<Rightarrow> nat \<Rightarrow> nat \<Rightarrow> client \<Rightarrow> unit outcome \<times> client" where
  "log_request ver e r w =
     (case find_executor e (executor w) of
        None \<Rightarrow> (Raises ConnectionError, w)
      | Some x \<Rightarrow>
          if \<not> has_client x then (Raises ConnectionError, w)
          else
            let w1 = w\<lparr>executor := update_executor e (append_request r) (executor w)\<rparr>;
                w2 = add_done_callback r (Unlog_request e r) w1
            in if kind (reqs w2 r) = Passive then (Returns (), wait ver r w2) else send ver r w2)"

text \<open>
  The first part of \<open>RequestPassive.__await__\<close>: with a timeout, a timer is started whose
  callback is \<open>lambda: self.set_result(Event.TIMEOUT)\<close>.
\<close>

definition arm_timeout :: "nat \<Rightarrow> client \<Rightarrow> client" where
  "arm_timeout r w =
     (case timeout (reqs w r) of
        None \<Rightarrow> w
      | Some t \<Rightarrow>
          add_done_callback r (Cancel_timeout r)
            (w\<lparr>timers := timers w @ [(r, Armed)],
               reqs := (reqs w)(r := (reqs w r)\<lparr>event_mask := event_mask (reqs w r) OR TIMEOUT,
                                                timeout_handle := Some (length (timers w))\<rparr>)\<rparr>))"

text \<open>
  \<open>await request\<close>: \<open>Request.__await__\<close> logs the request with its executor and then awaits
  the future; \<open>RequestWelcome\<close> awaits the future only.
\<close>

definition await :: "version \<Rightarrow> nat \<Rightarrow> client \<Rightarrow> pyval outcome \<times> client" where
  "await ver r w =
     (if kind (reqs w r) = Welcome then future_await r w
      else
        let w1 = (if kind (reqs w r) = Passive then arm_timeout r w else w) in
        (case log_request ver (rexecutor (reqs w1 r)) r w1 of
           (Returns u, w2) \<Rightarrow> future_await r w2
         | (Raises e, w2) \<Rightarrow> (Raises e, w2)
         | (Suspends, w2) \<Rightarrow> (Suspends, w2)))"

section \<open>request.py: the reply parsers\<close>

text \<open>
  A parser is a generator fed one line at a time by \<open>RequestActive._process_reply\<close>. Here it
  takes the lines it is fed: \<open>Returns ()\<close> is \<open>StopIteration\<close>, with the lines left over;
  \<open>Suspends\<close> is a parser that waits for more when the lines end.
\<close>

fun commandline_parser :: "string \<Rightarrow> nat \<Rightarrow> reply \<Rightarrow> string list \<Rightarrow> client \<Rightarrow> unit outcome \<times> string list \<times> client" where
  "commandline_parser success r acc [] w = (Suspends, [], w)"
| "commandline_parser success r acc (line # rest) w =
     (case match_error line of
        Some (e, n, c, m) \<Rightarrow>
          (case set_exception r (ReplyError e n c m (commandline (reqs w r))) w of
             (out, w1) \<Rightarrow> (out, rest, w1))
      | None \<Rightarrow>
          if line = success then
            (case apply_transform (rtransform (reqs w r)) acc of
               Inl err \<Rightarrow> (Raises err, rest, w\<lparr>trace := trace w @ [Decoded r]\<rparr>)
             | Inr v \<Rightarrow> (Returns (), rest, set_result r v (w\<lparr>trace := trace w @ [Decoded r]\<rparr>)))
          else
            (case split_once DELIM line of
               None \<Rightarrow> (Raises ValueError, rest, w)
             | Some (key, v) \<Rightarrow>
                 commandline_parser success r (acc @ [(replace (CHR ''-'') ''_'' key, v)]) rest w))"

definition welcome_parser :: "nat \<Rightarrow> string list \<Rightarrow> client \<Rightarrow> unit outcome \<times> string list \<times> client" where
  "welcome_parser r ls w =
     (case ls of
        [] \<Rightarrow> (Suspends, [], w)
      | line # rest \<Rightarrow>
          if fut (reqs w r) = Cancelled then (Returns (), rest, w)
          else if prefix WELCOME_PREFIX line
          then (Returns (), rest, set_result r (PStr (drop (length WELCOME_PREFIX) line)) w)
          else (Raises (ProtocolError (PStr line)), rest, w))"

fun commandlist_parser :: "nat \<Rightarrow> nat list \<Rightarrow> pyval list \<Rightarrow> string list \<Rightarrow> client \<Rightarrow> unit outcome \<times> string list \<times> client" where
  "commandlist_parser r [] results ls w =
     (case ls of
        [] \<Rightarrow> (Suspends, [], w)
      | line # rest \<Rightarrow>
          if line \<noteq> SUCCESS
          then (Raises (ProtocolError (PStr ''Too many replies for command list'')), rest, w)
          else if fut (reqs w r) \<noteq> Cancelled then (Returns (), rest, set_result r (PList results) w)
          else (Returns (), rest, w))"
| "commandlist_parser r (c # cs) results ls w =
     (case commandline_parser LIST_SUCCESS c [] ls w of
        (Returns u, rest, w1) \<Rightarrow>
          (case future_exception (fut (reqs w1 c)) of
             Inl err \<Rightarrow> (Raises err, rest, w1)
           | Inr (Some e) \<Rightarrow> (case set_exception r e w1 of (out, w2) \<Rightarrow> (out, rest, w2))
           | Inr None \<Rightarrow>
               (case future_result (fut (reqs w1 c)) of
                  Inl err \<Rightarrow> (Raises err, rest, w1)
                | Inr v \<Rightarrow> commandlist_parser r cs (results @ [v]) rest w1))
      | (Raises e, rest, w1) \<Rightarrow> (Raises e, rest, w1)
      | (Suspends, rest, w1) \<Rightarrow> (Suspends, rest, w1))"

definition parser :: "nat \<Rightarrow> string list \<Rightarrow> client \<Rightarrow> unit outcome \<times> string list \<times> client" where
  "parser r ls w =
     (case kind (reqs w r) of
        Welcome \<Rightarrow> welcome_parser r ls w
      | CommandList \<Rightarrow> commandlist_parser r (commands (reqs w r)) [] ls w
      | Passive \<Rightarrow> (Raises AttributeError, ls, w)
      | _ \<Rightarrow> commandline_parser SUCCESS r [] ls w)"

text \<open>
  \<open>RequestActive._process_reply\<close>: the lines are sent to the parser until it stops; lines
  after that are dropped, and a parser that still waits is dropped too.
\<close>

definition request_process_reply :: "nat \<Rightarrow> string list \<Rightarrow> client \<Rightarrow> unit outcome \<times> client" where
  "request_process_reply r ls w =
     (case parser r ls w of
        (Raises e, rest, w1) \<Rightarrow> (Raises e, w1)
      | (Returns u, rest, w1) \<Rightarrow> (Returns (), w1)
      | (Suspends, rest, w1) \<Rightarrow> (Returns (), w1))"

section \<open>client.py: replies\<close>

text \<open>
  \<open>Client._process_reply\<close> of 0.2.12. With an empty queue it calls the coroutine function
  \<open>disconnect_from_server\<close> without awaiting the result, which runs nothing, and returns.
  \<open>self._idle_task()\<close> starts a task.
\<close>

definition process_reply :: "string list \<Rightarrow> client \<Rightarrow> unit outcome \<times> client" where
  "process_reply rep w =
     (case active_queue w of
        None \<Rightarrow> (Raises AssertionError, w)
      | Some [] \<Rightarrow> (Returns (), w)
      | Some (r # q) \<Rightarrow>
          (case request_process_reply r rep (w\<lparr>active_queue := Some q, trace := trace w @ [Replied r]\<rparr>) of
             (Returns u, w1) \<Rightarrow>
               if active_queue w1 = Some []
               then (Returns (), w1\<lparr>active := False, ready := ready w1 @ [Idle_task]\<rparr>)
               else (Returns (), w1)
           | (out, w1) \<Rightarrow> (out, w1)))"

text \<open>
  \<open>AMPDProtocol.data_received\<close> of 0.2.12: the data is cut into lines, and each line that
  starts with \<open>OK\<close> or \<open>ACK\<close> closes a block, for which a task running \<open>_process_reply\<close> is
  started.
\<close>

fun protocol_lines :: "string list \<Rightarrow> client \<Rightarrow> client" where
  "protocol_lines [] w = w"
| "protocol_lines (line # rest) w =
     (if prefix ''OK'' line \<or> prefix ''ACK'' line
      then protocol_lines rest (w\<lparr>lines := [], ready := ready w @ [Process_reply (lines w @ [line])]\<rparr>)
      else protocol_lines rest (w\<lparr>lines := lines w @ [line]\<rparr>))"

definition protocol_data_received :: "string \<Rightarrow> client \<Rightarrow> client" where
  "protocol_data_received data w =
     (protocol_lines (butlast (split_char LF (incomplete_line w @ data))) w)
       \<lparr>incomplete_line := last (split_char LF (incomplete_line w @ data))\<rparr>"

text \<open>
  \<open>Client.data_received\<close> of 0.3.3. It calls \<open>request_.read_data(data)\<close>, a method that the
  \<open>request.py\<close> at hand does not define; it is the parameter \<open>read_data\<close> here, a function of
  the request object and the data that returns the data left over, or \<open>None\<close> when the reply
  is not complete. The loop reads the head of the queue, which only the loop itself changes.
\<close>

fun data_received_loop :: "(request \<Rightarrow> string \<Rightarrow> string option \<times> request) \<Rightarrow> nat list \<Rightarrow> string \<Rightarrow> client \<Rightarrow> unit outcome \<times> client" where
  "data_received_loop read_data [] data w = (Raises IndexError, w)"
| "data_received_loop read_data (r # q) data w =
     (case read_data (reqs w r) data of
        (None, rq) \<Rightarrow> (Returns (), w\<lparr>reqs := (reqs w)(r := rq)\<rparr>)
      | (Some data', rq) \<Rightarrow>
          (let w1 = w\<lparr>reqs := (reqs w)(r := rq)\<rparr>;
               w2 = (if kind (reqs w r) = Idle then w1\<lparr>state := state w1 OR FLAG_ACTIVE\<rparr> else w1);
               w3 = w2\<lparr>active_queue := Some q, trace := trace w2 @ [Replied r]\<rparr>
           in if q = [] then (Returns (), w3\<lparr>ready := ready w3 @ [Idle_task]\<rparr>)
              else data_received_loop read_data q data' w3))"

definition data_received :: "(request \<Rightarrow> string \<Rightarrow> string option \<times> request) \<Rightarrow> string \<Rightarrow> client \<Rightarrow> unit outcome \<times> client" where
  "data_received read_data data w =
     (case active_queue w of
        None \<Rightarrow> (Raises AttributeError, w)
      | Some q \<Rightarrow> data_received_loop read_data q data w)"

section \<open>client.py: closing executors and disconnecting\<close>

text \<open>
  What \<open>Executor.close\<close> does to a request it still holds: \<open>request_.cancel()\<close> in 0.2.12,
  \<open>if not request_.done(): request_.set_exception(errors.ConnectionError)\<close> in 0.3.3.
\<close>

definition fail_request :: "version \<Rightarrow> nat \<Rightarrow> client \<Rightarrow> client" where
  "fail_request ver r w =
     (if ver = V0_2_12 then cancel r w
      else if \<not> is_done w r then snd (set_exception r ConnectionError w) else w)"

text \<open>
  \<open>Executor.close\<close> on a node: the effect on everything but the tree. Each child that closes
  removes itself from \<open>_children\<close>, so \<open>while self._children: self._children[0].close()\<close>
  goes through the children in order; a child whose \<open>_client\<close> is already cleared returns at
  once and stays, and the loop never ends: the result is \<open>None\<close>.
\<close>

fun close_node :: "version \<Rightarrow> executor \<Rightarrow> client \<Rightarrow> client option"
  and close_children :: "version \<Rightarrow> executor list \<Rightarrow> client \<Rightarrow> client option" where
  "close_node ver (Executor i c ch rq ccb dcb) w =
     (if \<not> c then Some w
      else
        (case close_children ver ch w of
           None \<Rightarrow> None
         | Some w1 \<Rightarrow>
             Some ((foldl (\<lambda>w' r. fail_request ver r w') w1 rq)
                     \<lparr>trace := trace (foldl (\<lambda>w' r. fail_request ver r w') w1 rq) @ [Closed i]\<rparr>)))"
| "close_children ver [] w = Some w"
| "close_children ver (x # xs) w =
     (if \<not> has_client x then None
      else (case close_node ver x w of None \<Rightarrow> None | Some w1 \<Rightarrow> close_children ver xs w1))"

text \<open>
  The tree after an executor has closed: it is removed from its parent's children; the
  client's own executor has no parent and stays, closed.
\<close>

fun remove_executor :: "nat \<Rightarrow> executor \<Rightarrow> executor" where
  "remove_executor i (Executor j c ch rq ccb dcb) =
     Executor j c (map (remove_executor i) (filter (\<lambda>x. eid x \<noteq> i) ch)) rq ccb dcb"

definition detach :: "nat \<Rightarrow> executor \<Rightarrow> executor" where
  "detach i root =
     (if eid root = i then Executor i False [] (requests root) None None else remove_executor i root)"

definition close :: "version \<Rightarrow> nat \<Rightarrow> client \<Rightarrow> client option" where
  "close ver e w =
     (case find_executor e (executor w) of
        None \<Rightarrow> Some w
      | Some x \<Rightarrow>
          (case close_node ver x w of
             None \<Rightarrow> None
           | Some w1 \<Rightarrow> Some (if has_client x then w1\<lparr>executor := detach e (executor w1)\<rparr> else w1)))"

text \<open>
  The loop of \<open>disconnect_from_server\<close> in 0.3.3:
  \<open>if not request_.done(): request_.set_exception(errors.ConnectionError)\<close>, then
  \<open>await request_\<close> with \<open>except errors.ConnectionError: pass\<close>.
\<close>

fun disconnect_requests :: "version \<Rightarrow> nat list \<Rightarrow> client \<Rightarrow> unit outcome \<times> client" where
  "disconnect_requests ver [] w = (Returns (), w)"
| "disconnect_requests ver (r # rs) w =
     (case await ver r (if \<not> is_done w r then snd (set_exception r ConnectionError w) else w) of
        (Returns v, w2) \<Rightarrow> disconnect_requests ver rs w2
      | (Raises e, w2) \<Rightarrow>
          if e = ConnectionError then disconnect_requests ver rs w2 else (Raises e, w2)
      | (Suspends, w2) \<Rightarrow> (Suspends, w2))"

definition disconnect_from_server :: "version \<Rightarrow> nat \<Rightarrow> string option \<Rightarrow> client \<Rightarrow> unit outcome \<times> client" where
  "disconnect_from_server ver reason message w =
     (if state w = STATE_DISCONNECTED then (Returns (), w)
      else
        (case
           (if state w = STATE_CONNECTING
            then (Returns (), w\<lparr>trace := trace w @ [Connecting_cancelled]\<rparr>)
            else
              (let w1 = w\<lparr>protocol_disconnect_cb := False, transport_open := False,
                          protocol_version := None\<rparr>
               in (case active_queue w1 of
                     None \<Rightarrow> (Raises AttributeError, w1)
                   | Some q \<Rightarrow>
                       (case (if ver = V0_3_3 then disconnect_requests ver (q @ waiting_list w1) w1
                              else (Returns (), w1)) of
                          (Returns u, w2) \<Rightarrow> (Returns (), w2\<lparr>active_queue := None\<rparr>)
                        | (out, w2) \<Rightarrow> (out, w2)))))
         of
           (Returns u, w3) \<Rightarrow>
             (Returns (), w3\<lparr>state := STATE_DISCONNECTED,
                             notifications := notifications w3 @ disconnect_cb (executor w3) reason message\<rparr>)
         | (out, w3) \<Rightarrow> (out, w3)))"

text \<open>
  \<open>AMPDProtocol.connection_lost\<close> starts a task for its disconnect callback unless that is
  \<open>None\<close>.
\<close>

definition connection_lost :: "client \<Rightarrow> client" where
  "connection_lost w =
     (if protocol_disconnect_cb w then w\<lparr>ready := ready w @ [Disconnect_task DISCONNECT_ERROR]\<rparr> else w)"

section \<open>client.py: timers, the idle task and the callbacks the loop runs\<close>

text \<open>
  The event loop runs the callback of a timer handle when its time has come, unless the
  handle was cancelled; when that is, is up to the clock.
\<close>

definition timer_expires :: "nat \<Rightarrow> client \<Rightarrow> client" where
  "timer_expires h w =
     (if h < length (timers w) \<and> snd (timers w ! h) = Armed
      then set_result (fst (timers w ! h)) (PInt TIMEOUT)
             (w\<lparr>timers := (timers w)[h := (fst (timers w ! h), Timer_fired)]\<rparr>)
      else w)"

text \<open>\<open>TimerHandle.cancel\<close>.\<close>

definition cancel_handle :: "nat \<Rightarrow> client \<Rightarrow> client" where
  "cancel_handle h w =
     (if h < length (timers w) \<and> snd (timers w ! h) = Armed
      then w\<lparr>timers := (timers w)[h := (fst (timers w ! h), Timer_cancelled)]\<rparr>
      else w)"

text \<open>\<open>for subsystem in ...: event |= request.Event[subsystem.upper()]\<close>\<close>

fun subsystem_events :: "int \<Rightarrow> pyval list \<Rightarrow> error + int" where
  "subsystem_events ev [] = Inr ev"
| "subsystem_events ev (PStr s # rest) =
     (case Event (upper s) of Inl e \<Rightarrow> Inl e | Inr b \<Rightarrow> subsystem_events (ev OR b) rest)"
| "subsystem_events ev (_ # rest) = Inl AttributeError"

text \<open>The part of \<open>_idle_task\<close> after \<open>await request_\<close>, run when the idle request is done.\<close>

definition idle_task_resume :: "version \<Rightarrow> nat \<Rightarrow> client \<Rightarrow> unit outcome \<times> client" where
  "idle_task_resume ver r w =
     (case future_result (fut (reqs w r)) of
        Inl e \<Rightarrow> (Raises e, w)
      | Inr v \<Rightarrow>
          (case (case v of PList subsystems \<Rightarrow> subsystem_events NONE subsystems | _ \<Rightarrow> Inl TypeError) of
             Inl e \<Rightarrow> (Raises e, w)
           | Inr ev \<Rightarrow>
               (let w1 = (if ev \<noteq> 0 then snd (event ver ev False w) else w)
                in (Returns (), if ver = V0_3_3 then w1\<lparr>ready := ready w1 @ [Idle_task]\<rparr> else w1))))"

text \<open>Going idle: a new \<open>RequestIdle\<close> of the client's executor is awaited.\<close>

definition go_idle :: "version \<Rightarrow> client \<Rightarrow> unit outcome \<times> client" where
  "go_idle ver w =
     (let r = fst (new_request (RequestIdle (eid (executor w))) w);
          w1 = snd (new_request (RequestIdle (eid (executor w))) w);
          w2 = (if ver = V0_2_12 then add_done_callback r (Unidle r) w1 else w1)
      in (case await ver r w2 of
            (Suspends, w3) \<Rightarrow> (Suspends, add_done_callback r (Idle_task_resume r) w3)
          | (Returns v, w3) \<Rightarrow> idle_task_resume ver r w3
          | (Raises e, w3) \<Rightarrow> (Raises e, w3)))"

definition idle_task :: "version \<Rightarrow> client \<Rightarrow> unit outcome \<times> client" where
  "idle_task ver w =
     (if ver = V0_2_12 then
        (if state w AND FLAG_CONNECTED = 0 \<or> active w then (Returns (), w)
         else (case event ver IDLE True w of
                 (True, w1) \<Rightarrow> (Returns (), w1)
               | (False, w1) \<Rightarrow> go_idle ver w1))
      else
        (if state w AND FLAG_CONNECTED = 0 then (Returns (), w)
         else
           (case active_queue w of
              None \<Rightarrow> (Raises AttributeError, w)
            | Some (r # q) \<Rightarrow> (Returns (), w)
            | Some [] \<Rightarrow>
                (case event ver IDLE True w of
                   (True, w1) \<Rightarrow> (Returns (), w1\<lparr>ready := ready w1 @ [Idle_task]\<rparr>)
                 | (False, w1) \<Rightarrow> go_idle ver w1))))"

text \<open>
  One callback taken from the loop's queue. In 0.2.12 the protocol's disconnect callback is
  \<open>disconnect_from_server_async\<close>, which calls \<open>disconnect_from_server\<close> without awaiting
  it: nothing runs.
\<close>

fun run_callback :: "version \<Rightarrow> callback \<Rightarrow> client \<Rightarrow> unit outcome \<times> client" where
  "run_callback ver (Unlog_request e r) w =
     (case find_executor e (executor w) of
        None \<Rightarrow> (Returns (), w)
      | Some x \<Rightarrow>
          if r \<in> set (requests x)
          then (Returns (), w\<lparr>executor := update_executor e (remove_request r) (executor w)\<rparr>)
          else (Raises ValueError, w))"
| "run_callback ver (Waiting_list_remove r) w =
     (if r \<in> set (waiting_list w) then (Returns (), w\<lparr>waiting_list := remove1 r (waiting_list w)\<rparr>)
      else (Raises ValueError, w))"
| "run_callback ver (Cancel_timeout r) w =
     (case timeout_handle (reqs w r) of
        None \<Rightarrow> (Raises AttributeError, w)
      | Some h \<Rightarrow> (Returns (), cancel_handle h w))"
| "run_callback ver (Unidle r) w =
     (Returns (), if state w AND FLAG_CONNECTED \<noteq> 0 then w\<lparr>state := state w OR FLAG_ACTIVE\<rparr> else w)"
| "run_callback ver (Idle_task_resume r) w = idle_task_resume ver r w"
| "run_callback ver (Process_reply rep) w = process_reply rep w"
| "run_callback ver Idle_task w = idle_task ver w"
| "run_callback ver (Disconnect_task reason) w =
     (if ver = V0_2_12 then (Returns (), w) else disconnect_from_server ver reason None w)"

text \<open>
  The loop runs the callbacks that are ready, in order; what they schedule runs in a later
  round. An exception of a callback goes to the loop's exception handler and stops nothing.
\<close>

fun run_callbacks :: "version \<Rightarrow> callback list \<Rightarrow> client \<Rightarrow> client" where
  "run_callbacks ver [] w = w"
| "run_callbacks ver (cb # cbs) w = run_callbacks ver cbs (snd (run_callback ver cb w))"

definition run_ready :: "version \<Rightarrow> client \<Rightarrow> client" where
  "run_ready ver w = run_callbacks ver (ready w) (w\<lparr>ready := []\<rparr>)"

section \<open>client.py: a new client and a new connection\<close>

text \<open>
  \<open>Client.__init__\<close>. The attributes \<open>_active_queue\<close> and \<open>_active\<close> do not exist yet. The
  places of the store that hold no object yet are filled with a placeholder.
\<close>

definition new_client :: client where
  "new_client =
     \<lparr>executor = Executor 0 True [] [] None None, waiting_list = [], state = STATE_DISCONNECTED,
      protocol_version = None, active_queue = None, active = False,
      reqs = (\<lambda>i. blank_request Welcome 0), next_request = 0, wire = [], transport_open = False,
      protocol_disconnect_cb = False, lines = [], incomplete_line = [], ready = [], timers = [],
      connect_notifications = [], notifications = [], trace = []\<rparr>"

text \<open>
  \<open>reconnect_to_server\<close> from the return of \<open>create_connection\<close> to \<open>await welcome\<close>: the
  state is \<open>STATE_ACTIVE\<close> and the queue holds a new \<open>RequestWelcome\<close>.
\<close>

definition connection_made :: "client \<Rightarrow> client" where
  "connection_made w =
     (let w1 = w\<lparr>state := STATE_ACTIVE, transport_open := True, protocol_disconnect_cb := True,
                 lines := [], incomplete_line := []\<rparr>
      in (snd (new_request (RequestWelcome (eid (executor w1))) w1))
           \<lparr>active_queue := Some [fst (new_request (RequestWelcome (eid (executor w1))) w1)]\<rparr>)"

section \<open>client.py: the connection specification\<close>

text \<open>
  \<open>urllib.parse.urlsplit('//' + spec)\<close>, as far as \<open>connect_to_server\<close> reads the result.
  The argument starts with \<open>//\<close>, so no scheme is found. Tabs and line ends are removed, the
  network location runs to the first of \<open>/\<close>, \<open>?\<close> and \<open>#\<close>, and a bracket without its
  partner is a \<open>ValueError\<close>. A network location with both brackets is checked by the
  library (the text between them has to be an address of the \<open>ipaddress\<close> module, and in
  later versions nothing may stand before the opening bracket or between the closing one
  and the port); that check is no code of this program and is the parameter
  \<open>brackets_ok\<close>: where it fails, \<open>urlsplit\<close> raises \<open>ValueError\<close>.
\<close>

definition urlsplit_netloc :: "(string \<Rightarrow> bool) \<Rightarrow> string \<Rightarrow> error + string" where
  "urlsplit_netloc brackets_ok spec =
     (let netloc = takeWhile (\<lambda>c. c \<notin> set ''/?#'') (filter (\<lambda>c. c \<notin> {CHR 0x09, CHR 0x0D, LF}) spec)
      in if (CHR ''['' \<in> set netloc \<and> CHR '']'' \<notin> set netloc)
            \<or> (CHR '']'' \<in> set netloc \<and> CHR ''['' \<notin> set netloc)
         then Inl ValueError
         else if CHR ''['' \<in> set netloc \<and> CHR '']'' \<in> set netloc \<and> \<not> brackets_ok netloc
         then Inl ValueError
         else Inr netloc)"

text \<open>The properties \<open>username\<close>, \<open>hostname\<close> and \<open>port\<close> of the result.\<close>

definition netloc_username :: "string \<Rightarrow> string option" where
  "netloc_username netloc =
     (case rpartition_char (CHR ''@'') netloc of
        (userinfo, have_info, hostinfo) \<Rightarrow>
          if have_info then Some (fst (partition_char (CHR '':'') userinfo)) else None)"

definition netloc_hostinfo :: "string \<Rightarrow> string \<times> string option" where
  "netloc_hostinfo netloc =
     (let hostinfo = snd (snd (rpartition_char (CHR ''@'') netloc));
          bracket = partition_char (CHR ''['') hostinfo;
          hostname = (if fst (snd bracket) then fst (partition_char (CHR '']'') (snd (snd bracket)))
                      else fst (partition_char (CHR '':'') hostinfo));
          port = (if fst (snd bracket)
                  then snd (snd (partition_char (CHR '':'') (snd (snd (partition_char (CHR '']'') (snd (snd bracket)))))))
                  else snd (snd (partition_char (CHR '':'') hostinfo)))
      in (hostname, if port = [] then None else Some port))"

definition netloc_hostname :: "string \<Rightarrow> string option" where
  "netloc_hostname netloc =
     (let hostname = fst (netloc_hostinfo netloc)
      in if hostname = [] then None
         else (case partition_char (CHR ''%'') hostname of
                 (h, percent, zone) \<Rightarrow> Some (lower h @ (if percent then ''%'' else []) @ zone)))"

definition netloc_port :: "string \<Rightarrow> error + int option" where
  "netloc_port netloc =
     (case snd (netloc_hostinfo netloc) of
        None \<Rightarrow> Inr None
      | Some port \<Rightarrow>
          if list_all is_digit port \<and> int_of_digits port \<le> 65535 then Inr (Some (int_of_digits port))
          else Inl ValueError)"

text \<open>
  \<open>connect_to_server(host, port, password)\<close> up to the call of \<open>reconnect_to_server\<close>: the
  values it stores in \<open>_host\<close>, \<open>_port\<close> and \<open>_password\<close>. \<open>mpd_host\<close> is the environment's
  \<open>MPD_HOST\<close>, \<open>brackets_ok\<close> the library's check of a bracketed host. \<open>x or y\<close> is \<open>y\<close>
  when \<open>x\<close> is \<open>None\<close>, the empty string or zero.
\<close>

definition connect_to_server :: "(string \<Rightarrow> bool) \<Rightarrow> string option \<Rightarrow> string option \<Rightarrow> int \<Rightarrow> string option \<Rightarrow> error + (string option \<times> int \<times> string option)" where
  "connect_to_server brackets_ok mpd_host host port password =
     (case urlsplit_netloc brackets_ok
             (case host of
                Some h \<Rightarrow> if h \<noteq> [] then h else (case mpd_host of Some d \<Rightarrow> d | None \<Rightarrow> ''localhost'')
              | None \<Rightarrow> (case mpd_host of Some d \<Rightarrow> d | None \<Rightarrow> ''localhost'')) of
        Inl e \<Rightarrow> Inl e
      | Inr netloc \<Rightarrow>
          (case netloc_port netloc of
             Inl e \<Rightarrow> Inl e
           | Inr p \<Rightarrow>
               Inr (netloc_hostname netloc,
                    (case p of Some n \<Rightarrow> if n \<noteq> 0 then n else port | None \<Rightarrow> port),
                    (case netloc_username netloc of
                       Some u \<Rightarrow> if u \<noteq> [] then Some u else password
                     | None \<Rightarrow> password))))"

section \<open>Runs of a connection\<close>

text \<open>The requests whose command line was written, and those that were handed a reply, in order.\<close>

definition written :: "client \<Rightarrow> nat list" where
  "written w = concat (map (\<lambda>e. case e of Write r \<Rightarrow> [r] | _ \<Rightarrow> []) (trace w))"

definition replied :: "client \<Rightarrow> nat list" where
  "replied w = concat (map (\<lambda>e. case e of Replied r \<Rightarrow> [r] | _ \<Rightarrow> []) (trace w))"

text \<open>
  What happens on a connection: a caller awaits a request, the client's idle task runs, or
  a reply block arrives. In 0.2.12 the block goes to \<open>_process_reply\<close>; in 0.3.3 its bytes go
  to \<open>data_received\<close>.
\<close>

datatype action = Await nat | Run_idle_task | Reply "string list"

fun step :: "version \<Rightarrow> (request \<Rightarrow> string \<Rightarrow> string option \<times> request) \<Rightarrow> action \<Rightarrow> client \<Rightarrow> client" where
  "step ver read_data (Await r) w = snd (await ver r w)"
| "step ver read_data Run_idle_task w = snd (idle_task ver w)"
| "step ver read_data (Reply rep) w =
     (if ver = V0_2_12 then snd (process_reply rep w)
      else snd (data_received read_data (concat (map (\<lambda>l. l @ [LF]) rep)) w))"

definition run :: "version \<Rightarrow> (request \<Rightarrow> string \<Rightarrow> string option \<times> request) \<Rightarrow> action list \<Rightarrow> client \<Rightarrow> client" where
  "run ver read_data acts w = foldl (\<lambda>w' a. step ver read_data a w') w acts"

text \<open>
  The invariant of a connection: the requests that were handed a reply, followed by the
  queue, are the requests \<open>c\<close> that were in flight at the start followed by the requests
  written since.
\<close>

definition queue_view :: "client \<Rightarrow> nat list option \<times> nat list \<times> nat list" where
  "queue_view w = (active_queue w, replied w, written w)"

definition fifo :: "nat list \<Rightarrow> client \<Rightarrow> bool" where
  "fifo c w = (\<exists>q. active_queue w = Some q \<and> replied w @ q = c @ written w)"

section \<open>Well-formed replies\<close>

text \<open>
  A payload line of a reply, as a parser with the given end line reads it: it is not an
  error line and not the end line, and it holds the delimiter. \<open>field\<close> is the pair the
  parser appends for it.
\<close>

definition field_line :: "string \<Rightarrow> string \<Rightarrow> bool" where
  "field_line success l = (match_error l = None \<and> l \<noteq> success \<and> split_once DELIM l \<noteq> None)"

definition field :: "string \<Rightarrow> string \<times> string" where
  "field l = (case split_once DELIM l of
                Some (k, v) \<Rightarrow> (replace (CHR ''-'') ''_'' k, v)
              | None \<Rightarrow> ([], []))"

text \<open>
  The member of a command list whose reply was read with success: its outcome is set and
  the decoding is recorded.
\<close>

definition member_done :: "client \<Rightarrow> nat \<times> string list \<times> pyval \<Rightarrow> client" where
  "member_done w m = set_result (fst m) (snd (snd m)) (w\<lparr>trace := trace w @ [Decoded (fst m)]\<rparr>)"

text \<open>The requests whose reply was decoded, in order.\<close>

definition decoded :: "client \<Rightarrow> nat list" where
  "decoded w = concat (map (\<lambda>e. case e of Decoded r \<Rightarrow> [r] | _ \<Rightarrow> []) (trace w))"

section \<open>Example states\<close>

text \<open>Objects created one after the other.\<close>

definition store :: "request list \<Rightarrow> client \<Rightarrow> client" where
  "store qs w = foldl (\<lambda>w' q. snd (new_request q w')) w qs"

definition command :: "string \<Rightarrow> arg list \<Rightarrow> transform \<Rightarrow> request" where
  "command name args t = (blank_request Command 0)\<lparr>commandline := command_line name args, rtransform := t\<rparr>"

text \<open>
  A connection just made, with the greeting as request 0, and the commands \<open>status\<close> and
  \<open>currentsong\<close> created as requests 1 and 2.
\<close>

definition example_connection :: client where
  "example_connection =
     store [command ''status'' [] Dict, command ''currentsong'' [] Dict] (connection_made new_client)"

text \<open>
  The commands \<open>status\<close>, \<open>currentsong\<close> and \<open>play\<close> as requests 0, 1 and 2, and the command
  list of the three as request 3.
\<close>

definition example_batch :: client where
  "example_batch =
     store [command ''status'' [] Dict, command ''currentsong'' [] Dict,
            command ''play'' [] TransformEmpty,
            (blank_request CommandList 0)
              \<lparr>commandline := join [LF] [''command_list_ok_begin'', ''status '', ''currentsong '',
                                         ''play '', ''command_list_end''],
               commands := [0, 1, 2]\<rparr>] new_client"

text \<open>
  The same connection (0.2.12) after the greeting has arrived and the idle task has run: the
  client is idle, with the \<open>idle\<close> command it sent as request 3 in the queue.
\<close>

definition example_idle :: client where
  "example_idle =
     run V0_2_12 (\<lambda>q d. (None, q)) [Reply [''OK MPD 0.23.5''], Run_idle_task] example_connection"

text \<open>
  The connection with a subscription to \<open>CONNECT | PLAYER\<close> with a timeout, created as
  request 3.
\<close>

definition example_subscription :: client where
  "example_subscription = store [RequestPassive 0 (CONNECT OR PLAYER) (Some 30)] example_connection"

text \<open>
  An \<open>add\<close> command with the argument \<open>a"b\c\<close> as request 0, one with the argument \<open>}\<close> as
  request 1 and one with the argument \<open>a"b\<close> as request 2.
\<close>

definition example_arguments :: client where
  "example_arguments =
     store [command ''add'' [ArgStr [CHR ''a'', DQUOTE, CHR ''b'', BACKSLASH, CHR ''c'']] TransformEmpty,
            command ''add'' [ArgStr ''}''] TransformEmpty,
            command ''add'' [ArgStr [CHR ''a'', DQUOTE, CHR ''b'']] TransformEmpty] new_client"

section \<open>Open executors\<close>

text \<open>
  An executor all of whose descendants still have their client. A new child takes the
  client of its parent and only \<open>close\<close> clears it, children first, so the tree below an
  executor that has its client is of this kind.
\<close>

fun open_tree :: "executor \<Rightarrow> bool" where
  "open_tree (Executor i c ch rq ccb dcb) = (c \<and> list_all open_tree ch)"

text \<open>
  The executors of a tree in the order in which a depth-first closing reaches them: below
  each one its children from first to last, every child after its own descendants and the
  executor itself last. The descendants of an executor are those of its children's trees.
\<close>

fun closing_order :: "executor \<Rightarrow> executor list" where
  "closing_order (Executor i c ch rq ccb dcb) =
     concat (map closing_order ch) @ [Executor i c ch rq ccb dcb]"

definition descendants :: "executor \<Rightarrow> executor list" where
  "descendants x = concat (map closing_order (children x))"

text \<open>The elements of a list, each at its first place.\<close>

definition first_occurrences :: "'a list \<Rightarrow> 'a list" where
  "first_occurrences xs = rev (remdups (rev xs))"

text \<open>An executor without client: closed, in the tree or detached from it.\<close>

definition is_closed :: "client \<Rightarrow> nat \<Rightarrow> bool" where
  "is_closed w e = (case find_executor e (executor w) of None \<Rightarrow> True | Some x \<Rightarrow> \<not> has_client x)"

text \<open>The state in which \<open>Executor.close\<close> leaves a request that was pending.\<close>

definition failed :: "version \<Rightarrow> fstate" where
  "failed ver = (if ver = V0_2_12 then Cancelled else Exception ConnectionError)"

text \<open>From one state to a later one, futures only go from pending to failed.\<close>

definition fails :: "version \<Rightarrow> client \<Rightarrow> client \<Rightarrow> bool" where
  "fails ver w w' =
     (\<forall>r. fut (reqs w' r) = fut (reqs w r) \<or> (fut (reqs w r) = Pending \<and> fut (reqs w' r) = failed ver))"

text \<open>
  An executor with two children: the executor 0 of the client holds request 1, its child 1
  holds request 2 and has a child 2 of its own, which holds nothing; the requests are those of
  the example connection.
\<close>

definition example_tree :: client where
  "example_tree =
     example_connection
       \<lparr>executor := Executor 0 True [Executor 1 True [Executor 2 True [] [] None None] [2] None None]
                       [1] None None,
        reqs := (reqs example_connection)
                  (1 := (reqs example_connection 1)\<lparr>done_callbacks := [Unlog_request 0 1]\<rparr>,
                   2 := (reqs example_connection 2)\<lparr>rexecutor := 1, done_callbacks := [Unlog_request 1 2]\<rparr>)\<rparr>"

text \<open>
  A connection of 0.3.3 with a disconnect callback (callback 0) on the client's executor:
  the greeting has been read (here the missing \<open>read_data\<close> takes all the data as the
  reply), the commands 1 and 2 have been written and the subscription 3 waits, so three
  requests are outstanding. In the second state the caller that awaited request 1 has been
  cancelled, which cancels the request while it stays in the queue.
\<close>

definition example_outstanding :: client where
  "example_outstanding =
     run V0_3_3 (\<lambda>q d. (Some [], q\<lparr>fut := Result (PStr d)\<rparr>))
       [Reply [''OK MPD 0.23.5''], Await 1, Await 2, Await 3]
       (example_subscription\<lparr>executor := Executor 0 True [] [] None (Some 0)\<rparr>)"

definition example_cancelled :: client where
  "example_cancelled = cancel 1 example_outstanding"

text \<open>
  A connection of 0.2.12 on which the greeting has been read and the commands
  \<open>readcomments\<close> and \<open>currentsong\<close>, the requests 1 and 2, have been written.
\<close>

definition example_comments :: client where
  "example_comments =
     run V0_2_12 (\<lambda>q d. (None, q)) [Reply [''OK MPD 0.23.5''], Await 1, Await 2]
       (store [command ''readcomments'' [ArgStr ''x.flac''] Dict, command ''currentsong'' [] Dict]
          (connection_made new_client))"

section \<open>Reading a quoted argument back\<close>

text \<open>
  Modelled from the spec: the decoding of a quoted argument, which \<open>request.py\<close> does not
  have. The spec has string arguments "double-quoted with \<open>"\<close>/\<open>\\<close> escaped"; read back,
  the argument stands between the two quotes, and a backslash stands for the character
  that follows it. \<open>decode_argument\<close> reads the argument of a command line with one
  argument.
\<close>

fun unescape :: "string \<Rightarrow> string option" where
  "unescape [] = Some []"
| "unescape [c] = (if c = BACKSLASH \<or> c = DQUOTE then None else Some [c])"
| "unescape (c # d # ds) =
     (if c = BACKSLASH then map_option (\<lambda>s. d # s) (unescape ds)
      else if c = DQUOTE then None
      else map_option (\<lambda>s. c # s) (unescape (d # ds)))"

definition unquote :: "string \<Rightarrow> string option" where
  "unquote q =
     (case q of
        [] \<Rightarrow> None
      | c # cs \<Rightarrow> if c = DQUOTE \<and> cs \<noteq> [] \<and> last cs = DQUOTE then unescape (butlast cs) else None)"

definition decode_argument :: "string \<Rightarrow> string \<Rightarrow> string option" where
  "decode_argument name line =
     (case strip_prefix (replace (CHR ''_'') '' '' name @ '' '') line of
        None \<Rightarrow> None
      | Some q \<Rightarrow> unquote q)"

section \<open>Futures: what stays as it is\<close>

lemma set_result_eq: "set_result r v w = (if \<not> is_done w r then finish r (Result v) w else w)"
  by (simp add: set_result_def Request_set_result_def future_set_result_def)

lemma fut_set_result_done: "is_done w r \<Longrightarrow> fut (reqs (set_result r' v w) r) = fut (reqs w r)"
  by (cases "r' = r") (auto simp: set_result_eq finish_def is_done_def)

lemma is_done_set_result: "is_done w r \<Longrightarrow> is_done (set_result r' v w) r"
  by (simp add: is_done_def fut_set_result_done[unfolded is_done_def])

lemma fut_event_loop_done:
  "is_done w r \<Longrightarrow> fut (reqs (snd (event_loop ver ev one rs w)) r) = fut (reqs w r)"
proof (induction rs arbitrary: w)
  case Nil
  then show ?case by simp
next
  case (Cons a rs)
  have d: "is_done (w\<lparr>active := True\<rparr>) r" using Cons.prems by (simp add: is_done_def)
  show ?case using Cons d
    by (auto simp: Let_def fut_set_result_done is_done_set_result)
qed

section \<open>Setting a result twice\<close>

text \<open>
  Claim C9. \<open>Request.set_result\<close> on a request that is already done (resolved, failed or
  cancelled) returns without an error and changes nothing. So the three ways a subscription
  is resolved cannot overwrite an outcome: the timer callback and the event match both go
  through \<open>set_result\<close>, and closing an executor (0.3.3) sets its exception only on a request
  that is not done.
\<close>

theorem set_result_done_noop:
  assumes "is_done w r"
  shows "Request_set_result r v w = (Returns (), w)
       \<and> fut (reqs (timer_expires h w) r) = fut (reqs w r)
       \<and> fut (reqs (snd (event ver ev one w)) r) = fut (reqs w r)
       \<and> fail_request V0_3_3 r w = w"
proof -
  have a: "Request_set_result r v w = (Returns (), w)"
    using assms by (simp add: Request_set_result_def)
  have d: "is_done (w\<lparr>timers := ts\<rparr>) r" for ts using assms by (simp add: is_done_def)
  have b: "fut (reqs (timer_expires h w) r) = fut (reqs w r)"
    using fut_set_result_done[OF d] by (simp add: timer_expires_def)
  have c: "fut (reqs (snd (event ver ev one w)) r) = fut (reqs w r)"
    using assms by (simp add: event_def fut_event_loop_done)
  show ?thesis using a b c assms by (simp add: fail_request_def)
qed

theorem set_result_done_noop_witness:
  "is_done (cancel 0 (connection_made new_client)) 0
   \<and> Request_set_result 0 (PInt TIMEOUT) (cancel 0 (connection_made new_client))
       = (Returns (), cancel 0 (connection_made new_client))
   \<and> fut (reqs (timer_expires 0 (cancel 0 (connection_made new_client))) 0) = Cancelled
   \<and> fut (reqs (snd (event V0_3_3 IDLE False (cancel 0 (connection_made new_client)))) 0) = Cancelled
   \<and> fail_request V0_3_3 0 (cancel 0 (connection_made new_client))
       = cancel 0 (connection_made new_client)"
proof -
  have d: "is_done (cancel 0 (connection_made new_client)) 0"
    by (simp add: cancel_def connection_made_def new_client_def is_done_def new_request_def
        RequestWelcome_def blank_request_def finish_def Let_def)
  have f: "fut (reqs (cancel 0 (connection_made new_client)) 0) = Cancelled"
    by (simp add: cancel_def connection_made_def new_client_def is_done_def new_request_def
        RequestWelcome_def blank_request_def finish_def Let_def)
  show ?thesis
    using set_result_done_noop[OF d, of "PInt TIMEOUT" 0 V0_3_3 IDLE False] d f by simp
qed

section \<open>The queue: what leaves it as it is\<close>

lemma queue_view_finish [simp]: "queue_view (finish r s w) = queue_view w"
  by (simp add: queue_view_def finish_def replied_def written_def)

lemma queue_view_set_result [simp]: "queue_view (set_result r v w) = queue_view w"
  by (simp add: set_result_eq)

lemma queue_view_cancel [simp]: "queue_view (cancel r w) = queue_view w"
  by (simp add: cancel_def)

lemma queue_view_set_exception [simp]: "queue_view (snd (set_exception r e w)) = queue_view w"
  by (simp add: set_exception_def)

lemma queue_view_add_done_callback [simp]: "queue_view (add_done_callback r cb w) = queue_view w"
  by (simp add: add_done_callback_def queue_view_def replied_def written_def)

lemma queue_view_wait [simp]: "queue_view (wait ver r w) = queue_view w"
proof -
  have "queue_view (w\<lparr>waiting_list := l\<rparr>) = queue_view w" for l by (simp add: queue_view_def replied_def written_def)
  then show ?thesis by (simp add: wait_def Let_def)
qed

lemma queue_view_arm_timeout [simp]: "queue_view (arm_timeout r w) = queue_view w"
proof -
  have "queue_view (w\<lparr>timers := t, reqs := q\<rparr>) = queue_view w" for t q by (simp add: queue_view_def replied_def written_def)
  then show ?thesis by (simp add: arm_timeout_def split: option.splits)
qed

lemma queue_view_event_loop [simp]: "queue_view (snd (event_loop ver ev one rs w)) = queue_view w"
proof (induction rs arbitrary: w)
  case Nil then show ?case by simp
next
  case (Cons a rs)
  have "queue_view (w\<lparr>active := True\<rparr>) = queue_view w" by (simp add: queue_view_def replied_def written_def)
  then show ?case using Cons by (auto simp: Let_def)
qed

lemma queue_view_event [simp]: "queue_view (snd (event ver ev one w)) = queue_view w"
  by (simp add: event_def)

lemma fifo_queue_view: "queue_view w' = queue_view w \<Longrightarrow> fifo c w \<Longrightarrow> fifo c w'"
  by (auto simp: fifo_def queue_view_def)

lemma fifo_send: "fifo c w \<Longrightarrow> fifo c (snd (send ver r w))"
  by (auto simp: fifo_def send_def Let_def replied_def written_def)

lemma queue_view_executor [simp]: "queue_view (w\<lparr>executor := x\<rparr>) = queue_view w"
  by (simp add: queue_view_def replied_def written_def)

lemma fifo_log_request: "fifo c w \<Longrightarrow> fifo c (snd (log_request ver e r w))"
proof -
  assume f: "fifo c w"
  have a: "fifo c (add_done_callback r cb (w\<lparr>executor := x\<rparr>))" for cb x
    using f by (rule fifo_queue_view[rotated]) simp
  show ?thesis
    using f a fifo_send[OF a] fifo_queue_view[OF queue_view_wait a]
    by (simp add: log_request_def Let_def split: option.splits)
qed

lemma future_await_snd [simp]: "snd (future_await r w) = w"
  by (simp add: future_await_def split: fstate.splits)

lemma fifo_await: "fifo c w \<Longrightarrow> fifo c (snd (await ver r w))"
proof -
  assume f: "fifo c w"
  have a: "fifo c (arm_timeout r w)" using f by (rule fifo_queue_view[rotated]) simp
  have b: "snd (case x of (Returns u, w2) \<Rightarrow> future_await r w2 | (Raises e, w2) \<Rightarrow> (Raises e, w2)
              | (Suspends, w2) \<Rightarrow> (Suspends, w2)) = snd x" for x :: "unit outcome \<times> client"
    by (cases x; cases "fst x") auto
  show ?thesis
    using f a fifo_log_request[OF f] fifo_log_request[OF a]
    by (simp add: await_def Let_def b)
qed

lemma queue_view_trace_frame:
  "queue_view (w\<lparr>trace := trace w @ [Decoded r]\<rparr>) = queue_view w"
  by (simp add: queue_view_def replied_def written_def)

lemma queue_view_set_exception_pair: "set_exception r e w = (out, w') \<Longrightarrow> queue_view w' = queue_view w"
  using queue_view_set_exception[of r e w] by simp

lemma queue_view_commandline_parser [simp]:
  "queue_view (snd (snd (commandline_parser success r acc ls w))) = queue_view w"
proof (induction ls arbitrary: acc)
  case Nil then show ?case by simp
next
  case (Cons l ls)
  show ?case using Cons
    by (auto simp: queue_view_trace_frame dest: queue_view_set_exception_pair split: option.splits prod.splits sum.splits)
qed

lemma queue_view_welcome_parser [simp]: "queue_view (snd (snd (welcome_parser r ls w))) = queue_view w"
  by (simp add: welcome_parser_def split: list.splits)

lemma queue_view_commandlist_parser [simp]:
  "queue_view (snd (snd (commandlist_parser r cs results ls w))) = queue_view w"
proof (induction cs arbitrary: results ls w)
  case Nil then show ?case by (simp split: list.splits)
next
  case (Cons c cs)
  have a: "queue_view (snd (snd (commandline_parser LIST_SUCCESS c [] ls w))) = queue_view w" by simp
  show ?case
  proof (cases "commandline_parser LIST_SUCCESS c [] ls w")
    case (fields out rest w1)
    then have q: "queue_view w1 = queue_view w" using a by simp
    show ?thesis using fields q Cons.IH[of _ rest w1]
      by (cases out) (auto dest: queue_view_set_exception_pair split: sum.splits option.splits prod.splits)
  qed
qed

lemma queue_view_parser [simp]: "queue_view (snd (snd (parser r ls w))) = queue_view w"
  by (simp add: parser_def split: kind.splits)

lemma queue_view_request_process_reply [simp]: "queue_view (snd (request_process_reply r ls w)) = queue_view w"
proof -
  have "snd (request_process_reply r ls w) = snd (snd (parser r ls w))"
    by (simp add: request_process_reply_def split: prod.splits outcome.splits)
  then show ?thesis by simp
qed

lemma process_reply_head:
  assumes "active_queue w = Some (r # q)"
  shows "active_queue (snd (process_reply rep w)) = Some q
       \<and> replied (snd (process_reply rep w)) = replied w @ [r]
       \<and> written (snd (process_reply rep w)) = written w"
proof -
  let ?w0 = "w\<lparr>active_queue := Some q, trace := trace w @ [Replied r]\<rparr>"
  have a: "queue_view (snd (request_process_reply r rep ?w0)) = queue_view ?w0" by simp
  have b: "queue_view ?w0 = (Some q, replied w @ [r], written w)"
    by (simp add: queue_view_def replied_def written_def)
  obtain out w1 where o: "request_process_reply r rep ?w0 = (out, w1)" by (cases "request_process_reply r rep ?w0")
  have c: "queue_view w1 = (Some q, replied w @ [r], written w)" using a b o by simp
  have d: "queue_view (w1\<lparr>active := False, ready := ready w1 @ [Idle_task]\<rparr>) = queue_view w1"
    by (simp add: queue_view_def replied_def written_def)
  show ?thesis using assms o c d
    by (cases out) (auto simp: process_reply_def queue_view_def)
qed

lemma fifo_process_reply: "fifo c w \<Longrightarrow> fifo c (snd (process_reply rep w))"
proof -
  assume f: "fifo c w"
  then obtain q where q: "active_queue w = Some q" "replied w @ q = c @ written w" by (auto simp: fifo_def)
  show ?thesis
  proof (cases q)
    case Nil
    then show ?thesis using f q by (simp add: process_reply_def)
  next
    case (Cons r q')
    then show ?thesis using process_reply_head[of w r q' rep] q by (simp add: fifo_def)
  qed
qed

lemma fifo_data_received_loop:
  "active_queue w = Some q \<Longrightarrow> fifo c w \<Longrightarrow> fifo c (snd (data_received_loop rd q d w))"
proof (induction q arbitrary: d w)
  case Nil
  then show ?case by simp
next
  case (Cons r q)
  obtain res rq where rd: "rd (reqs w r) d = (res, rq)" by (cases "rd (reqs w r) d")
  have frame: "queue_view (w\<lparr>reqs := x\<rparr>) = queue_view w" for x by (simp add: queue_view_def replied_def written_def)
  show ?case
  proof (cases res)
    case None
    then show ?thesis using rd Cons.prems fifo_queue_view[OF frame] by simp
  next
    case (Some d')
    let ?w1 = "w\<lparr>reqs := (reqs w)(r := rq)\<rparr>"
    let ?w2 = "(if kind (reqs w r) = Idle then ?w1\<lparr>state := state ?w1 OR FLAG_ACTIVE\<rparr> else ?w1)"
    let ?w3 = "?w2\<lparr>active_queue := Some q, trace := trace ?w2 @ [Replied r]\<rparr>"
    have q3: "active_queue ?w3 = Some q" by simp
    have f3: "fifo c ?w3" using Cons.prems by (auto simp: fifo_def replied_def written_def)
    have f4: "fifo c (?w3\<lparr>ready := ready ?w3 @ [Idle_task]\<rparr>)"
      using f3 by (auto simp: fifo_def replied_def written_def)
    show ?thesis
    proof (cases "q = []")
      case True
      then show ?thesis using rd Some f4 by (simp add: Let_def)
    next
      case False
      then show ?thesis using rd Some Cons.IH[OF q3 f3] by (simp add: Let_def)
    qed
  qed
qed

lemma fifo_data_received: "fifo c w \<Longrightarrow> fifo c (snd (data_received rd d w))"
  using fifo_data_received_loop by (auto simp: data_received_def fifo_def split: option.splits)

lemma queue_view_idle_task_resume [simp]: "queue_view (snd (idle_task_resume ver r w)) = queue_view w"
proof -
  have "queue_view (w'\<lparr>ready := x\<rparr>) = queue_view w'" for w' x by (simp add: queue_view_def replied_def written_def)
  then show ?thesis
    by (auto simp: idle_task_resume_def Let_def split: sum.splits pyval.splits)
qed

lemma fifo_go_idle: "fifo c w \<Longrightarrow> fifo c (snd (go_idle ver w))"
proof -
  assume f: "fifo c w"
  let ?r = "fst (new_request (RequestIdle (eid (executor w))) w)"
  let ?w1 = "snd (new_request (RequestIdle (eid (executor w))) w)"
  let ?w2 = "(if ver = V0_2_12 then add_done_callback ?r (Unidle ?r) ?w1 else ?w1)"
  have "queue_view ?w1 = queue_view w" by (simp add: new_request_def queue_view_def replied_def written_def)
  then have "queue_view ?w2 = queue_view w" by simp
  then have f2: "fifo c ?w2" using f fifo_queue_view by blast
  have f3: "fifo c (snd (await ver ?r ?w2))" using fifo_await[OF f2] .
  obtain out w3 where a: "await ver ?r ?w2 = (out, w3)" by (cases "await ver ?r ?w2")
  have f3': "fifo c w3" using f3 a by simp
  have "fifo c (add_done_callback ?r (Idle_task_resume ?r) w3)"
    using f3' by (rule fifo_queue_view[rotated]) simp
  moreover have "fifo c (snd (idle_task_resume ver ?r w3))"
    using f3' by (rule fifo_queue_view[rotated]) simp
  ultimately show ?thesis using a f3'
    by (cases out) (simp_all add: go_idle_def Let_def)
qed

lemma fifo_idle_task: "fifo c w \<Longrightarrow> fifo c (snd (idle_task ver w))"
proof -
  assume f: "fifo c w"
  obtain b w1 where e: "event ver IDLE True w = (b, w1)" by (cases "event ver IDLE True w")
  have "queue_view w1 = queue_view w" using queue_view_event[of ver IDLE True w] e by simp
  then have f1: "fifo c w1" using f fifo_queue_view by blast
  have f2: "fifo c (w1\<lparr>ready := x\<rparr>)" for x using f1 by (auto simp: fifo_def replied_def written_def)
  show ?thesis using f e f1 f2 fifo_go_idle[OF f1, of ver]
    by (cases b) (auto simp: idle_task_def split: option.splits list.splits)
qed

lemma fifo_step: "fifo c w \<Longrightarrow> fifo c (step ver rd a w)"
  by (cases a) (simp_all add: fifo_await fifo_idle_task fifo_process_reply fifo_data_received)

lemma fifo_run: "fifo c w \<Longrightarrow> fifo c (run ver rd acts w)"
  unfolding run_def by (induction acts arbitrary: w) (simp_all add: fifo_step)

lemma replied_data_received_loop:
  "\<exists>ps. replied (snd (data_received_loop rd q d w)) = replied w @ ps"
proof (induction q arbitrary: d w)
  case Nil
  then show ?case by simp
next
  case (Cons r q)
  obtain res rq where rd: "rd (reqs w r) d = (res, rq)" by (cases "rd (reqs w r) d")
  show ?case
  proof (cases res)
    case None
    then show ?thesis using rd by (simp add: replied_def)
  next
    case (Some d')
    let ?w1 = "w\<lparr>reqs := (reqs w)(r := rq)\<rparr>"
    let ?w2 = "(if kind (reqs w r) = Idle then ?w1\<lparr>state := state ?w1 OR FLAG_ACTIVE\<rparr> else ?w1)"
    let ?w3 = "?w2\<lparr>active_queue := Some q, trace := trace ?w2 @ [Replied r]\<rparr>"
    have r3: "replied ?w3 = replied w @ [r]" by (simp add: replied_def)
    obtain ps where ps: "replied (snd (data_received_loop rd q d' ?w3)) = replied ?w3 @ ps"
      using Cons.IH[of d' ?w3] by blast
    show ?thesis
    proof (cases "q = []")
      case True
      then show ?thesis using rd Some r3 by (simp add: Let_def replied_def)
    next
      case False
      then show ?thesis using rd Some ps r3 by (simp add: Let_def)
    qed
  qed
qed

lemma data_received_head:
  assumes "active_queue w = Some (r # q)" and "fst (rd (reqs w r) d) \<noteq> None"
  shows "\<exists>ps. replied (snd (data_received rd d w)) = replied w @ r # ps"
proof -
  obtain d' rq where rd: "rd (reqs w r) d = (Some d', rq)"
    using assms(2) by (cases "rd (reqs w r) d") auto
  let ?w1 = "w\<lparr>reqs := (reqs w)(r := rq)\<rparr>"
  let ?w2 = "(if kind (reqs w r) = Idle then ?w1\<lparr>state := state ?w1 OR FLAG_ACTIVE\<rparr> else ?w1)"
  let ?w3 = "?w2\<lparr>active_queue := Some q, trace := trace ?w2 @ [Replied r]\<rparr>"
  have r3: "replied ?w3 = replied w @ [r]" by (simp add: replied_def)
  obtain ps where ps: "replied (snd (data_received_loop rd q d' ?w3)) = replied ?w3 @ ps"
    using replied_data_received_loop[of rd q d' ?w3] by blast
  show ?thesis
  proof (cases "q = []")
    case True
    then show ?thesis using rd r3 assms(1) by (simp add: data_received_def Let_def replied_def)
  next
    case False
    then show ?thesis using rd ps r3 assms(1) by (simp add: data_received_def Let_def)
  qed
qed

section \<open>Replies in the order of the writes\<close>

text \<open>
  The queue and the order of the writes. On a connection whose queue holds \<open>q\<close>, after any
  sequence of callers awaiting
  requests, runs of the idle task and reply blocks, in either version: the requests that
  were handed a reply, followed by the queue, are the requests in flight at the start
  followed by the requests written since, so replies go to the requests in the order these
  were written. Whatever executor a request belongs to, a reply block goes to the request at
  the head of the queue: to \<open>_process_reply\<close> of 0.2.12 every block, to \<open>data_received\<close> of
  0.3.3 the data that completes the reply of the head.
\<close>

theorem replies_in_write_order:
  assumes "active_queue w = Some q" and "replied w @ q = c @ written w"
  shows "(\<exists>q'. active_queue (run ver read_data acts w) = Some q'
              \<and> replied (run ver read_data acts w) @ q' = c @ written (run ver read_data acts w))
       \<and> prefix (replied (run ver read_data acts w)) (c @ written (run ver read_data acts w))
       \<and> (\<forall>r q'. q = r # q' \<longrightarrow>
            active_queue (step V0_2_12 read_data (Reply rep) w) = Some q'
            \<and> replied (step V0_2_12 read_data (Reply rep) w) = replied w @ [r]
            \<and> (fst (read_data (reqs w r) (concat (map (\<lambda>l. l @ [LF]) rep))) \<noteq> None \<longrightarrow>
                 (\<exists>ps. replied (step V0_3_3 read_data (Reply rep) w) = replied w @ r # ps)))"
proof -
  have "fifo c w" using assms by (simp add: fifo_def)
  then have "fifo c (run ver read_data acts w)" by (rule fifo_run)
  then obtain q' where q': "active_queue (run ver read_data acts w) = Some q'"
    "replied (run ver read_data acts w) @ q' = c @ written (run ver read_data acts w)"
    by (auto simp: fifo_def)
  have p: "prefix (replied (run ver read_data acts w)) (c @ written (run ver read_data acts w))"
    using q'(2) by (metis prefixI)
  have h: "\<forall>r q'. q = r # q' \<longrightarrow>
            active_queue (step V0_2_12 read_data (Reply rep) w) = Some q'
            \<and> replied (step V0_2_12 read_data (Reply rep) w) = replied w @ [r]
            \<and> (fst (read_data (reqs w r) (concat (map (\<lambda>l. l @ [LF]) rep))) \<noteq> None \<longrightarrow>
                 (\<exists>ps. replied (step V0_3_3 read_data (Reply rep) w) = replied w @ r # ps))"
  proof (intro allI impI)
    fix r q'' assume e: "q = r # q''"
    then have a: "active_queue w = Some (r # q'')" using assms(1) by simp
    show "active_queue (step V0_2_12 read_data (Reply rep) w) = Some q''
            \<and> replied (step V0_2_12 read_data (Reply rep) w) = replied w @ [r]
            \<and> (fst (read_data (reqs w r) (concat (map (\<lambda>l. l @ [LF]) rep))) \<noteq> None \<longrightarrow>
                 (\<exists>ps. replied (step V0_3_3 read_data (Reply rep) w) = replied w @ r # ps))"
      using process_reply_head[OF a, of rep] data_received_head[OF a, of read_data]
      by simp
  qed
  show ?thesis using q' p h by blast
qed

lemmas example_defs = example_connection_def example_batch_def store_def command_def
  connection_made_def new_client_def new_request_def RequestWelcome_def blank_request_def
  command_line_def join_def replace_def Let_def

lemmas run_defs = run_def replied_def written_def process_reply_def request_process_reply_def
  parser_def welcome_parser_def WELCOME_PREFIX_def set_result_eq is_done_def finish_def await_def
  log_request_def add_done_callback_def send_def append_request_def FLAG_CONNECTED_def
  FLAG_ACTIVE_def STATE_ACTIVE_def future_await_def match_error_def strip_prefix_def SUCCESS_def
  DELIM_def pydict_def dict_def

theorem replies_in_write_order_witness:
  "(\<exists>q'. active_queue (run V0_2_12 (\<lambda>q d. (None, q))
             [Reply [''OK MPD 0.23.5''], Await 2, Await 1, Reply [''file: x.mp3'', ''OK'']]
             example_connection) = Some q'
         \<and> replied (run V0_2_12 (\<lambda>q d. (None, q))
             [Reply [''OK MPD 0.23.5''], Await 2, Await 1, Reply [''file: x.mp3'', ''OK'']]
             example_connection) @ q'
           = [0] @ written (run V0_2_12 (\<lambda>q d. (None, q))
             [Reply [''OK MPD 0.23.5''], Await 2, Await 1, Reply [''file: x.mp3'', ''OK'']]
             example_connection))
   \<and> replied (run V0_2_12 (\<lambda>q d. (None, q))
             [Reply [''OK MPD 0.23.5''], Await 2, Await 1, Reply [''file: x.mp3'', ''OK'']]
             example_connection) = [0, 2]
   \<and> written (run V0_2_12 (\<lambda>q d. (None, q))
             [Reply [''OK MPD 0.23.5''], Await 2, Await 1, Reply [''file: x.mp3'', ''OK'']]
             example_connection) = [2, 1]
   \<and> active_queue (step V0_2_12 (\<lambda>q d. (None, q)) (Reply [''OK MPD 0.23.5'']) example_connection) = Some []
   \<and> replied (step V0_2_12 (\<lambda>q d. (None, q)) (Reply [''OK MPD 0.23.5'']) example_connection) = [0]"
proof -
  have q: "active_queue example_connection = Some [0]" by (simp add: example_defs)
  have e: "replied example_connection @ [0] = [0] @ written example_connection"
    by (simp add: example_defs replied_def written_def)
  have r: "replied example_connection = []" by (simp add: example_defs replied_def)
  have a: "replied (run V0_2_12 (\<lambda>q d. (None, q))
             [Reply [''OK MPD 0.23.5''], Await 2, Await 1, Reply [''file: x.mp3'', ''OK'']]
             example_connection) = [0, 2]"
    by (simp add: example_defs run_defs)
  have b: "written (run V0_2_12 (\<lambda>q d. (None, q))
             [Reply [''OK MPD 0.23.5''], Await 2, Await 1, Reply [''file: x.mp3'', ''OK'']]
             example_connection) = [2, 1]"
    by (simp add: example_defs run_defs)
  show ?thesis
    using replies_in_write_order[OF q e, of V0_2_12 "\<lambda>q d. (None, q)"
        "[Reply [''OK MPD 0.23.5''], Await 2, Await 1, Reply [''file: x.mp3'', ''OK'']]"
        "[''OK MPD 0.23.5'']"] a b r
    by simp
qed

section \<open>The parsers on well-formed replies\<close>

lemma commandline_parser_success:
  assumes "\<forall>l \<in> set payload. field_line success l"
    and "match_error success = None"
    and "apply_transform (rtransform (reqs w r)) (acc @ map field payload) = Inr v"
  shows "commandline_parser success r acc (payload @ success # rest) w
         = (Returns (), rest, member_done w (r, payload, v))"
  using assms
proof (induction payload arbitrary: acc)
  case Nil
  then show ?case by (simp add: member_done_def)
next
  case (Cons l payload)
  from Cons.prems(1) obtain k x where s: "split_once DELIM l = Some (k, x)"
    and m: "match_error l = None" and n: "l \<noteq> success"
    by (auto simp: field_line_def)
  have f: "field l = (replace (CHR ''-'') ''_'' k, x)" using s by (simp add: field_def)
  have "commandline_parser success r (acc @ [field l]) (payload @ success # rest) w
         = (Returns (), rest, member_done w (r, payload, v))"
    using Cons.IH[of "acc @ [field l]"] Cons.prems by simp
  then show ?case using s m n f by (simp add: member_done_def)
qed

lemma commandline_parser_error:
  assumes "\<forall>l \<in> set payload. field_line success l"
    and "match_error ack = Some (e, n, c, m)"
    and "\<not> is_done w r"
  shows "commandline_parser success r acc (payload @ ack # rest) w
         = (Returns (), rest, finish r (Exception (ReplyError e n c m (commandline (reqs w r)))) w)"
  using assms
proof (induction payload arbitrary: acc)
  case Nil
  then show ?case by (simp add: set_exception_def)
next
  case (Cons l payload)
  from Cons.prems(1) obtain k x where s: "split_once DELIM l = Some (k, x)"
    and m: "match_error l = None" and n: "l \<noteq> success"
    by (auto simp: field_line_def)
  show ?case using Cons.IH[of "acc @ [(replace (CHR ''-'') ''_'' k, x)]"] Cons.prems s m n by simp
qed

lemma match_error_LIST_SUCCESS [simp]: "match_error LIST_SUCCESS = None"
  by (simp add: match_error_def LIST_SUCCESS_def strip_prefix_def)

lemma match_error_SUCCESS [simp]: "match_error SUCCESS = None"
  by (simp add: match_error_def SUCCESS_def strip_prefix_def)

lemma member_done_fields [simp]:
  "rtransform (reqs (member_done w m) x) = rtransform (reqs w x)"
  "commandline (reqs (member_done w m) x) = commandline (reqs w x)"
  "kind (reqs (member_done w m) x) = kind (reqs w x)"
  by (simp_all add: member_done_def set_result_eq finish_def)

lemma member_done_fut_other [simp]:
  "x \<noteq> fst m \<Longrightarrow> fut (reqs (member_done w m) x) = fut (reqs w x)"
  by (simp add: member_done_def set_result_eq finish_def)

lemma member_done_fut_self:
  "fut (reqs w (fst m)) = Pending \<Longrightarrow> fut (reqs (member_done w m) (fst m)) = Result (snd (snd m))"
  by (simp add: member_done_def set_result_eq finish_def is_done_def)

lemma member_done_decoded [simp]:
  "decoded (member_done w m) = decoded w @ [fst m]"
  by (simp add: member_done_def set_result_eq finish_def decoded_def)

lemma foldl_member_done_fields [simp]:
  "rtransform (reqs (foldl member_done w pre) x) = rtransform (reqs w x)"
  "commandline (reqs (foldl member_done w pre) x) = commandline (reqs w x)"
  by (induction pre arbitrary: w) simp_all

lemma foldl_member_done_fut_other:
  "x \<notin> fst ` set pre \<Longrightarrow> fut (reqs (foldl member_done w pre) x) = fut (reqs w x)"
  by (induction pre arbitrary: w) simp_all

lemma foldl_member_done_fut_member:
  "distinct (map fst pre) \<Longrightarrow> \<forall>m \<in> set pre. fut (reqs w (fst m)) = Pending \<Longrightarrow> m \<in> set pre
   \<Longrightarrow> fut (reqs (foldl member_done w pre) (fst m)) = Result (snd (snd m))"
proof (induction pre arbitrary: w)
  case Nil
  then show ?case by simp
next
  case (Cons a pre)
  have na: "fst a \<notin> fst ` set pre" using Cons.prems(1) by auto
  show ?case
  proof (cases "m = a")
    case True
    then show ?thesis using na Cons.prems
      by (simp add: foldl_member_done_fut_other member_done_fut_self)
  next
    case False
    then have m: "m \<in> set pre" using Cons.prems by simp
    have p: "\<forall>m \<in> set pre. fut (reqs (member_done w a) (fst m)) = Pending"
    proof
      fix k assume k: "k \<in> set pre"
      then have "fst k \<noteq> fst a" using na by (metis image_eqI)
      then show "fut (reqs (member_done w a) (fst k)) = Pending" using Cons.prems(2) k by simp
    qed
    have d: "distinct (map fst pre)" using Cons.prems(1) by simp
    show ?thesis using Cons.IH[OF d p m] by simp
  qed
qed

lemma foldl_member_done_decoded [simp]:
  "decoded (foldl member_done w pre) = decoded w @ map fst pre"
  by (induction pre arbitrary: w) simp_all

lemma commandlist_parser_error:
  assumes "\<forall>m \<in> set pre. (\<forall>l \<in> set (fst (snd m)). field_line LIST_SUCCESS l)
             \<and> apply_transform (rtransform (reqs w (fst m))) (map field (fst (snd m))) = Inr (snd (snd m))"
    and "\<forall>l \<in> set pj. field_line LIST_SUCCESS l"
    and "match_error ack = Some (e, n, cmd, msg)"
    and "distinct (b # map fst pre @ [c])"
    and "\<forall>x \<in> set (b # map fst pre @ [c]). fut (reqs w x) = Pending"
  shows "commandlist_parser b (map fst pre @ c # post) results
           (concat (map (\<lambda>m. fst (snd m) @ [LIST_SUCCESS]) pre) @ pj @ ack # rest) w
         = (Returns (), rest,
            finish b (Exception (ReplyError e n cmd msg (commandline (reqs w c))))
              (finish c (Exception (ReplyError e n cmd msg (commandline (reqs w c))))
                 (foldl member_done w pre)))"
  using assms
proof (induction pre arbitrary: w results)
  case Nil
  let ?E = "ReplyError e n cmd msg (commandline (reqs w c))"
  have c: "\<not> is_done w c" using Nil.prems by (simp add: is_done_def)
  have p: "commandline_parser LIST_SUCCESS c [] (pj @ ack # rest) w = (Returns (), rest, finish c (Exception ?E) w)"
    using commandline_parser_error[OF Nil.prems(2,3) c] .
  have b: "\<not> is_done (finish c (Exception ?E) w) b" using Nil.prems by (simp add: is_done_def finish_def)
  show ?case using p b by (simp add: finish_def set_exception_def)
next
  case (Cons a pre)
  obtain c0 p0 v0 where a: "a = (c0, p0, v0)" by (cases a)
  have pend: "fut (reqs w c0) = Pending" using Cons.prems(5) a by simp
  have fl: "\<forall>l \<in> set p0. field_line LIST_SUCCESS l"
    and tr: "apply_transform (rtransform (reqs w c0)) ([] @ map field p0) = Inr v0"
    using Cons.prems(1) a by auto
  let ?more = "concat (map (\<lambda>m. fst (snd m) @ [LIST_SUCCESS]) pre) @ pj @ ack # rest"
  let ?w1 = "member_done w a"
  have p: "commandline_parser LIST_SUCCESS c0 [] (p0 @ LIST_SUCCESS # ?more) w = (Returns (), ?more, ?w1)"
    using commandline_parser_success[OF fl match_error_LIST_SUCCESS tr, where rest = ?more] a by simp
  have f1: "fut (reqs ?w1 c0) = Result v0" using member_done_fut_self[of w a] pend a by simp
  have h1: "\<forall>m \<in> set pre. (\<forall>l \<in> set (fst (snd m)). field_line LIST_SUCCESS l)
             \<and> apply_transform (rtransform (reqs ?w1 (fst m))) (map field (fst (snd m))) = Inr (snd (snd m))"
    using Cons.prems(1) by simp
  have h4: "distinct (b # map fst pre @ [c])" using Cons.prems(4) by simp
  have h5: "\<forall>x \<in> set (b # map fst pre @ [c]). fut (reqs ?w1 x) = Pending"
  proof
    fix x assume x: "x \<in> set (b # map fst pre @ [c])"
    then have "x \<noteq> fst a" using Cons.prems(4) by auto
    moreover have "fut (reqs w x) = Pending" using Cons.prems(5) x by auto
    ultimately show "fut (reqs ?w1 x) = Pending" by simp
  qed
  have ih: "commandlist_parser b (map fst pre @ c # post) (results @ [v0]) ?more ?w1
         = (Returns (), rest,
            finish b (Exception (ReplyError e n cmd msg (commandline (reqs ?w1 c))))
              (finish c (Exception (ReplyError e n cmd msg (commandline (reqs ?w1 c))))
                 (foldl member_done ?w1 pre)))"
    using Cons.IH[OF h1 Cons.prems(2) Cons.prems(3) h4 h5] .
  show ?case using p f1 ih a by simp
qed

section \<open>A command list whose member fails\<close>

text \<open>
  Claim C4. A command list \<open>b\<close> whose members are distinct pending commands is handed a
  reply in which the members before \<open>c\<close> each have payload lines that their transformation
  decodes, closed by \<open>list_OK\<close>, and the reply of \<open>c\<close> ends with an \<open>ACK\<close> line. Then the list
  fails with the \<open>ReplyError\<close> of \<open>c\<close>, which holds the index the \<open>ACK\<close> line reports and the
  command line of \<open>c\<close>; the members before \<open>c\<close> have their decoded results, each decoded
  once and none after them; \<open>c\<close> has the error and the members after \<open>c\<close> are still pending.
\<close>

theorem command_list_first_error:
  assumes "kind (reqs w b) = CommandList"
    and "commands (reqs w b) = map fst pre @ c # post"
    and "distinct (b # map fst pre @ c # post)"
    and "\<forall>x \<in> set (b # map fst pre @ c # post). fut (reqs w x) = Pending"
    and "\<forall>m \<in> set pre. (\<forall>l \<in> set (fst (snd m)). field_line LIST_SUCCESS l)
             \<and> apply_transform (rtransform (reqs w (fst m))) (map field (fst (snd m))) = Inr (snd (snd m))"
    and "\<forall>l \<in> set pj. field_line LIST_SUCCESS l"
    and "match_error ack = Some (e, n, cmd, msg)"
  shows "fst (request_process_reply b (concat (map (\<lambda>m. fst (snd m) @ [LIST_SUCCESS]) pre) @ pj @ [ack]) w) = Returns ()
       \<and> fut (reqs (snd (request_process_reply b (concat (map (\<lambda>m. fst (snd m) @ [LIST_SUCCESS]) pre) @ pj @ [ack]) w)) b)
           = Exception (ReplyError e n cmd msg (commandline (reqs w c)))
       \<and> fut (reqs (snd (request_process_reply b (concat (map (\<lambda>m. fst (snd m) @ [LIST_SUCCESS]) pre) @ pj @ [ack]) w)) c)
           = Exception (ReplyError e n cmd msg (commandline (reqs w c)))
       \<and> (\<forall>m \<in> set pre. fut (reqs (snd (request_process_reply b (concat (map (\<lambda>m. fst (snd m) @ [LIST_SUCCESS]) pre) @ pj @ [ack]) w)) (fst m))
           = Result (snd (snd m)))
       \<and> (\<forall>x \<in> set post. fut (reqs (snd (request_process_reply b (concat (map (\<lambda>m. fst (snd m) @ [LIST_SUCCESS]) pre) @ pj @ [ack]) w)) x) = Pending)
       \<and> decoded (snd (request_process_reply b (concat (map (\<lambda>m. fst (snd m) @ [LIST_SUCCESS]) pre) @ pj @ [ack]) w))
           = decoded w @ map fst pre"
proof -
  let ?E = "ReplyError e n cmd msg (commandline (reqs w c))"
  let ?ls = "concat (map (\<lambda>m. fst (snd m) @ [LIST_SUCCESS]) pre) @ pj @ [ack]"
  let ?w0 = "foldl member_done w pre"
  let ?w' = "finish b (Exception ?E) (finish c (Exception ?E) ?w0)"
  have d: "distinct (b # map fst pre @ [c])" using assms(3) by auto
  have p: "\<forall>x \<in> set (b # map fst pre @ [c]). fut (reqs w x) = Pending" using assms(4) by auto
  have "commandlist_parser b (map fst pre @ c # post) [] ?ls w = (Returns (), [], ?w')"
    using commandlist_parser_error[OF assms(5) assms(6) assms(7) d p, of post "[]" "[]"] by simp
  then have r: "request_process_reply b ?ls w = (Returns (), ?w')"
    using assms(1,2) by (simp add: request_process_reply_def parser_def)
  have bc: "b \<noteq> c" using assms(3) by auto
  have 1: "fut (reqs ?w' b) = Exception ?E" by (simp add: finish_def)
  have 2: "fut (reqs ?w' c) = Exception ?E" using bc by (simp add: finish_def)
  have 3: "\<forall>m \<in> set pre. fut (reqs ?w' (fst m)) = Result (snd (snd m))"
  proof
    fix m assume m: "m \<in> set pre"
    then have "fst m \<noteq> b" "fst m \<noteq> c" using assms(3) by auto
    moreover have "fut (reqs ?w0 (fst m)) = Result (snd (snd m))"
      using foldl_member_done_fut_member[of pre w m] assms(3,4) m by auto
    ultimately show "fut (reqs ?w' (fst m)) = Result (snd (snd m))" by (simp add: finish_def)
  qed
  have 4: "\<forall>x \<in> set post. fut (reqs ?w' x) = Pending"
  proof
    fix x assume x: "x \<in> set post"
    then have "x \<noteq> b" "x \<noteq> c" "x \<notin> fst ` set pre" using assms(3) by auto
    moreover have "fut (reqs w x) = Pending" using assms(4) x by auto
    ultimately show "fut (reqs ?w' x) = Pending"
      by (simp add: finish_def foldl_member_done_fut_other)
  qed
  have 5: "decoded ?w' = decoded w @ map fst pre"
  proof -
    have "decoded (finish r s u) = decoded u" for r s u by (simp add: decoded_def finish_def)
    then show ?thesis by simp
  qed
  show ?thesis using r 1 2 3 4 5 by simp
qed

theorem command_list_first_error_witness:
  "fst (request_process_reply 3 [''volume: 50'', ''list_OK'', ''ACK [50@1] {currentsong} oops''] example_batch)
     = Returns ()
   \<and> fut (reqs (snd (request_process_reply 3
        [''volume: 50'', ''list_OK'', ''ACK [50@1] {currentsong} oops''] example_batch)) 3)
     = Exception (ReplyError 50 1 ''currentsong'' ''oops'' ''currentsong '')
   \<and> fut (reqs (snd (request_process_reply 3
        [''volume: 50'', ''list_OK'', ''ACK [50@1] {currentsong} oops''] example_batch)) 1)
     = Exception (ReplyError 50 1 ''currentsong'' ''oops'' ''currentsong '')
   \<and> fut (reqs (snd (request_process_reply 3
        [''volume: 50'', ''list_OK'', ''ACK [50@1] {currentsong} oops''] example_batch)) 0)
     = Result (PDict [(''volume'', PStr ''50'')])
   \<and> fut (reqs (snd (request_process_reply 3
        [''volume: 50'', ''list_OK'', ''ACK [50@1] {currentsong} oops''] example_batch)) 2)
     = Pending
   \<and> decoded (snd (request_process_reply 3
        [''volume: 50'', ''list_OK'', ''ACK [50@1] {currentsong} oops''] example_batch)) = [0]"
proof -
  have 1: "kind (reqs example_batch 3) = CommandList" by (simp add: example_defs)
  have 2: "commands (reqs example_batch 3)
           = map fst [(0, [''volume: 50''], PDict [(''volume'', PStr ''50'')])] @ 1 # [2]"
    by (simp add: example_defs)
  have 3: "distinct (3 # map fst [(0::nat, [''volume: 50''], PDict [(''volume'', PStr ''50'')])] @ 1 # [2])"
    by simp
  have 4: "\<forall>x \<in> set (3 # map fst [(0, [''volume: 50''], PDict [(''volume'', PStr ''50'')])] @ 1 # [2]).
             fut (reqs example_batch x) = Pending"
    by (simp add: example_defs)
  have 5: "\<forall>m \<in> set [(0, [''volume: 50''], PDict [(''volume'', PStr ''50'')])].
             (\<forall>l \<in> set (fst (snd m)). field_line LIST_SUCCESS l)
             \<and> apply_transform (rtransform (reqs example_batch (fst m))) (map field (fst (snd m)))
                 = Inr (snd (snd m))"
    by (simp add: example_defs field_line_def field_def match_error_def strip_prefix_def
        LIST_SUCCESS_def DELIM_def pydict_def dict_def)
  have 6: "\<forall>l \<in> set []. field_line LIST_SUCCESS l" by simp
  have 7: "match_error ''ACK [50@1] {currentsong} oops'' = Some (50, 1, ''currentsong'', ''oops'')"
    by (simp add: match_error_def strip_prefix_def is_digit_def int_of_digits_def digit_val_def)
  have c: "commandline (reqs example_batch 1) = ''currentsong ''" by (simp add: example_defs)
  have d: "decoded example_batch = []" by (simp add: example_defs decoded_def)
  show ?thesis
    using command_list_first_error[OF 1 2 3 4 5 6 7] c d by (simp add: LIST_SUCCESS_def)
qed

section \<open>Leaving the idle state\<close>

lemma send_idle:
  assumes "kind (reqs w r) \<noteq> Idle" and "active_queue w = Some q" and "state w = STATE_IDLE"
  shows "send ver r w = (Returns (),
           w\<lparr>active := (if ver = V0_2_12 then True else active w),
             wire := wire w @ [''noidle'' @ [LF], commandline (reqs w r) @ [LF]],
             state := STATE_ACTIVE, trace := trace w @ [Write r],
             active_queue := Some (q @ [r])\<rparr>)"
  using assms
  by (simp add: send_def Let_def STATE_IDLE_def STATE_ACTIVE_def FLAG_CONNECTED_def FLAG_ACTIVE_def)

lemma send_active:
  assumes "kind (reqs w r) \<noteq> Idle" and "active_queue w = Some q" and "state w = STATE_ACTIVE"
  shows "send ver r w = (Returns (),
           w\<lparr>active := (if ver = V0_2_12 then True else active w),
             wire := wire w @ [commandline (reqs w r) @ [LF]],
             trace := trace w @ [Write r],
             active_queue := Some (q @ [r])\<rparr>)"
  using assms
  by (simp add: send_def Let_def STATE_IDLE_def STATE_ACTIVE_def FLAG_CONNECTED_def FLAG_ACTIVE_def)

lemma changed_field_line: "field_line SUCCESS (''changed: '' @ s)"
  by (simp add: field_line_def match_error_def strip_prefix_def SUCCESS_def DELIM_def)

lemma changed_field: "field (''changed: '' @ s) = (''changed'', s)"
  by (simp add: field_def DELIM_def replace_def)

lemma idle_reply:
  assumes "kind (reqs w i) = Idle" and "rtransform (reqs w i) = TransformSingleList"
    and "fut (reqs w i) = Pending"
  shows "fut (reqs (snd (request_process_reply i (map (\<lambda>s. ''changed: '' @ s) subs @ [SUCCESS]) w)) x)
         = (if x = i then Result (PList (map PStr subs)) else fut (reqs w x))"
proof -
  have fl: "\<forall>l \<in> set (map (\<lambda>s. ''changed: '' @ s) subs). field_line SUCCESS l"
    using changed_field_line[simplified] by simp
  have f: "map field (map (\<lambda>s. ''changed: '' @ s) subs) = map (\<lambda>s. (''changed'', s)) subs"
    using changed_field[simplified] by simp
  have tr: "apply_transform (rtransform (reqs w i)) ([] @ map field (map (\<lambda>s. ''changed: '' @ s) subs))
            = Inr (PList (map PStr subs))"
    using assms(2) by (simp add: changed_field[simplified] transform_single_list_def comp_def)
  have "commandline_parser SUCCESS i [] (map (\<lambda>s. ''changed: '' @ s) subs @ SUCCESS # []) w
        = (Returns (), [], member_done w (i, map (\<lambda>s. ''changed: '' @ s) subs, PList (map PStr subs)))"
    using commandline_parser_success[OF fl match_error_SUCCESS tr] .
  then have r: "request_process_reply i (map (\<lambda>s. ''changed: '' @ s) subs @ [SUCCESS]) w
        = (Returns (), member_done w (i, map (\<lambda>s. ''changed: '' @ s) subs, PList (map PStr subs)))"
    using assms(1) by (simp add: request_process_reply_def parser_def)
  show ?thesis using r assms(3) member_done_fut_self[of w "(i, map (\<lambda>s. ''changed: '' @ s) subs, PList (map PStr subs))"]
    by (cases "x = i") simp_all
qed

text \<open>
  Claim C2. A request other than the client's own \<open>idle\<close> is sent on a connection whose queue
  is \<open>q\<close>. In the idle state \<open>_send\<close> writes \<open>noidle\<close>, then the command line, and the state
  is active; in the active state it writes the command line only. Either way the request is
  queued last, so the next reply block goes to the request at the head: with the \<open>idle\<close>
  request outstanding, its reply is taken and the request resolved with the subsystems that
  changed, while the new request is still pending behind it.
\<close>

theorem noidle_before_command:
  assumes "kind (reqs w r) \<noteq> Idle" and "active_queue w = Some q"
  shows "(state w = STATE_IDLE \<longrightarrow>
            fst (send ver r w) = Returns ()
            \<and> wire (snd (send ver r w)) = wire w @ [''noidle'' @ [LF], commandline (reqs w r) @ [LF]]
            \<and> state (snd (send ver r w)) = STATE_ACTIVE
            \<and> active_queue (snd (send ver r w)) = Some (q @ [r]))
       \<and> (state w = STATE_ACTIVE \<longrightarrow>
            fst (send ver r w) = Returns ()
            \<and> wire (snd (send ver r w)) = wire w @ [commandline (reqs w r) @ [LF]]
            \<and> state (snd (send ver r w)) = STATE_ACTIVE
            \<and> active_queue (snd (send ver r w)) = Some (q @ [r]))
       \<and> (\<forall>i q' rep. state w = STATE_IDLE \<and> q = i # q' \<longrightarrow>
            active_queue (snd (process_reply rep (snd (send ver r w)))) = Some (q' @ [r])
            \<and> replied (snd (process_reply rep (snd (send ver r w)))) = replied w @ [i]
            \<and> (fst (read_data (reqs w i) d) \<noteq> None \<longrightarrow>
                 (\<exists>ps. replied (snd (data_received read_data d (snd (send ver r w)))) = replied w @ i # ps)))
       \<and> (\<forall>i subs. state w = STATE_IDLE \<and> q = [i] \<and> kind (reqs w i) = Idle
              \<and> rtransform (reqs w i) = TransformSingleList \<and> fut (reqs w i) = Pending \<longrightarrow>
            fut (reqs (snd (process_reply (map (\<lambda>s. ''changed: '' @ s) subs @ [SUCCESS]) (snd (send ver r w)))) i)
              = Result (PList (map PStr subs))
            \<and> fut (reqs (snd (process_reply (map (\<lambda>s. ''changed: '' @ s) subs @ [SUCCESS]) (snd (send ver r w)))) r)
              = fut (reqs w r))"
proof -
  have A: "state w = STATE_IDLE \<longrightarrow>
            fst (send ver r w) = Returns ()
            \<and> wire (snd (send ver r w)) = wire w @ [''noidle'' @ [LF], commandline (reqs w r) @ [LF]]
            \<and> state (snd (send ver r w)) = STATE_ACTIVE
            \<and> active_queue (snd (send ver r w)) = Some (q @ [r])"
    using send_idle[OF assms] by simp
  have B: "state w = STATE_ACTIVE \<longrightarrow>
            fst (send ver r w) = Returns ()
            \<and> wire (snd (send ver r w)) = wire w @ [commandline (reqs w r) @ [LF]]
            \<and> state (snd (send ver r w)) = STATE_ACTIVE
            \<and> active_queue (snd (send ver r w)) = Some (q @ [r])"
    using send_active[OF assms] by simp
  have C: "\<forall>i q' rep. state w = STATE_IDLE \<and> q = i # q' \<longrightarrow>
            active_queue (snd (process_reply rep (snd (send ver r w)))) = Some (q' @ [r])
            \<and> replied (snd (process_reply rep (snd (send ver r w)))) = replied w @ [i]
            \<and> (fst (read_data (reqs w i) d) \<noteq> None \<longrightarrow>
                 (\<exists>ps. replied (snd (data_received read_data d (snd (send ver r w)))) = replied w @ i # ps))"
  proof (intro allI impI)
    fix i q' rep assume h: "state w = STATE_IDLE \<and> q = i # q'"
    let ?w' = "snd (send ver r w)"
    have s: "send ver r w = (Returns (),
           w\<lparr>active := (if ver = V0_2_12 then True else active w),
             wire := wire w @ [''noidle'' @ [LF], commandline (reqs w r) @ [LF]],
             state := STATE_ACTIVE, trace := trace w @ [Write r],
             active_queue := Some (q @ [r])\<rparr>)"
      using send_idle[OF assms] h by simp
    have a: "active_queue ?w' = Some (i # (q' @ [r]))" using s h by simp
    have rp: "replied ?w' = replied w" using s by (simp add: replied_def)
    have rq: "reqs ?w' = reqs w" using s by simp
    show "active_queue (snd (process_reply rep ?w')) = Some (q' @ [r])
            \<and> replied (snd (process_reply rep ?w')) = replied w @ [i]
            \<and> (fst (read_data (reqs w i) d) \<noteq> None \<longrightarrow>
                 (\<exists>ps. replied (snd (data_received read_data d ?w')) = replied w @ i # ps))"
      using process_reply_head[OF a, of rep] data_received_head[OF a, of read_data d] rp rq
      by simp
  qed
  have D: "\<forall>i subs. state w = STATE_IDLE \<and> q = [i] \<and> kind (reqs w i) = Idle
              \<and> rtransform (reqs w i) = TransformSingleList \<and> fut (reqs w i) = Pending \<longrightarrow>
            fut (reqs (snd (process_reply (map (\<lambda>s. ''changed: '' @ s) subs @ [SUCCESS]) (snd (send ver r w)))) i)
              = Result (PList (map PStr subs))
            \<and> fut (reqs (snd (process_reply (map (\<lambda>s. ''changed: '' @ s) subs @ [SUCCESS]) (snd (send ver r w)))) r)
              = fut (reqs w r)"
  proof (intro allI impI)
    fix i subs
    assume h: "state w = STATE_IDLE \<and> q = [i] \<and> kind (reqs w i) = Idle
              \<and> rtransform (reqs w i) = TransformSingleList \<and> fut (reqs w i) = Pending"
    let ?rep = "map (\<lambda>s. ''changed: '' @ s) subs @ [SUCCESS]"
    let ?w' = "snd (send ver r w)"
    have s: "send ver r w = (Returns (),
           w\<lparr>active := (if ver = V0_2_12 then True else active w),
             wire := wire w @ [''noidle'' @ [LF], commandline (reqs w r) @ [LF]],
             state := STATE_ACTIVE, trace := trace w @ [Write r],
             active_queue := Some (q @ [r])\<rparr>)"
      using send_idle[OF assms] h by simp
    let ?w0 = "?w'\<lparr>active_queue := Some [r], trace := trace ?w' @ [Replied i]\<rparr>"
    have q0: "reqs ?w0 = reqs w" using s by simp
    have ne: "r \<noteq> i" using assms(1) h by auto
    have f: "fut (reqs (snd (request_process_reply i ?rep ?w0)) x)
         = (if x = i then Result (PList (map PStr subs)) else fut (reqs w x))" for x
      using idle_reply[of ?w0 i subs x] h q0 by simp
    obtain out w1 where o: "request_process_reply i ?rep ?w0 = (out, w1)"
      by (cases "request_process_reply i ?rep ?w0")
    have f1: "fut (reqs w1 x) = (if x = i then Result (PList (map PStr subs)) else fut (reqs w x))" for x
      using f[of x] o by simp
    have p: "reqs (snd (process_reply ?rep ?w')) = reqs w1"
      using s h o by (cases out) (simp_all add: process_reply_def)
    show "fut (reqs (snd (process_reply ?rep ?w')) i) = Result (PList (map PStr subs))
            \<and> fut (reqs (snd (process_reply ?rep ?w')) r) = fut (reqs w r)"
      using p f1 ne by simp
  qed
  show ?thesis using A B C D by blast
qed

lemmas idle_defs = example_idle_def idle_task_def go_idle_def event_def RequestIdle_def
  STATE_IDLE_def

lemma example_idle_eq:
  "state example_idle = STATE_IDLE \<and> active_queue example_idle = Some [3]
   \<and> wire example_idle = [''idle'' @ [LF]] \<and> kind (reqs example_idle 1) = Command
   \<and> kind (reqs example_idle 3) = Idle \<and> rtransform (reqs example_idle 3) = TransformSingleList
   \<and> fut (reqs example_idle 3) = Pending \<and> commandline (reqs example_idle 1) = ''status ''
   \<and> replied example_idle = [0]"
  by (simp add: idle_defs example_defs run_defs)

theorem noidle_before_command_witness:
  "kind (reqs example_idle 1) \<noteq> Idle \<and> active_queue example_idle = Some [3]
   \<and> state example_idle = STATE_IDLE
   \<and> fst (send V0_2_12 1 example_idle) = Returns ()
   \<and> wire (snd (send V0_2_12 1 example_idle)) = [''idle'' @ [LF], ''noidle'' @ [LF], ''status '' @ [LF]]
   \<and> state (snd (send V0_2_12 1 example_idle)) = STATE_ACTIVE
   \<and> active_queue (snd (send V0_2_12 1 example_idle)) = Some [3, 1]
   \<and> active_queue (snd (process_reply [''changed: player'', ''OK''] (snd (send V0_2_12 1 example_idle)))) = Some [1]
   \<and> replied (snd (process_reply [''changed: player'', ''OK''] (snd (send V0_2_12 1 example_idle)))) = [0, 3]
   \<and> fut (reqs (snd (process_reply [''changed: player'', ''OK''] (snd (send V0_2_12 1 example_idle)))) 3)
       = Result (PList [PStr ''player''])
   \<and> fut (reqs (snd (process_reply [''changed: player'', ''OK''] (snd (send V0_2_12 1 example_idle)))) 1)
       = Pending"
proof -
  have k: "kind (reqs example_idle 1) \<noteq> Idle" using example_idle_eq by simp
  have q: "active_queue example_idle = Some [3]" using example_idle_eq by simp
  have p: "fut (reqs example_idle 1) = Pending" by (simp add: idle_defs example_defs run_defs)
  note n = noidle_before_command[OF k q, of V0_2_12 "\<lambda>q d. (None, q)" "[]"]
  have a: "fst (send V0_2_12 1 example_idle) = Returns ()
     \<and> wire (snd (send V0_2_12 1 example_idle)) = wire example_idle @ [''noidle'' @ [LF], commandline (reqs example_idle 1) @ [LF]]
     \<and> state (snd (send V0_2_12 1 example_idle)) = STATE_ACTIVE
     \<and> active_queue (snd (send V0_2_12 1 example_idle)) = Some ([3] @ [1])"
    using n example_idle_eq by blast
  have c: "active_queue (snd (process_reply [''changed: player'', ''OK''] (snd (send V0_2_12 1 example_idle)))) = Some ([] @ [1])
     \<and> replied (snd (process_reply [''changed: player'', ''OK''] (snd (send V0_2_12 1 example_idle)))) = replied example_idle @ [3]"
    using n example_idle_eq by blast
  have d: "fut (reqs (snd (process_reply (map (\<lambda>s. ''changed: '' @ s) [''player''] @ [SUCCESS]) (snd (send V0_2_12 1 example_idle)))) 3)
              = Result (PList (map PStr [''player'']))
         \<and> fut (reqs (snd (process_reply (map (\<lambda>s. ''changed: '' @ s) [''player''] @ [SUCCESS]) (snd (send V0_2_12 1 example_idle)))) 1)
              = fut (reqs example_idle 1)"
    using n example_idle_eq by blast
  show ?thesis using a c d example_idle_eq p by (simp add: SUCCESS_def)
qed

section \<open>Subscriptions the current state satisfies\<close>

lemma current_events_no_timeout: "current_events ver w AND (m OR TIMEOUT) = current_events ver w AND m"
proof -
  have "current_events ver w AND TIMEOUT = 0"
    by (simp add: current_events_def Let_def TIMEOUT_def IDLE_def CONNECT_def)
  then show ?thesis by (simp add: bit.conj_disj_distrib)
qed

lemma wait_resolves:
  assumes "fut (reqs w r) = Pending" and "current_events ver w AND event_mask (reqs w r) \<noteq> 0"
  shows "wait ver r w = finish r (Result (PInt (current_events ver w AND event_mask (reqs w r)))) w"
  using assms by (simp add: wait_def Let_def set_result_eq is_done_def)

text \<open>
  Claim C6, as amended. A pending subscription of an open executor is awaited while the
  events of the current state meet its mask: it is resolved at once with the events they
  share, nothing is written and it does not enter the waiting list. The events of the
  current state are \<open>IDLE\<close> when the client is idle and, in 0.2.12 only, \<open>CONNECT\<close> when it is
  connected; in 0.3.3 the connection alone satisfies no subscription.
\<close>

theorem subscription_resolves_at_once:
  assumes "kind (reqs w r) = Passive" and "fut (reqs w r) = Pending"
    and "find_executor (rexecutor (reqs w r)) (executor w) = Some x" and "has_client x"
    and "current_events ver w AND event_mask (reqs w r) \<noteq> 0"
  shows "fst (await ver r w) = Returns (PInt (current_events ver w AND event_mask (reqs w r)))
       \<and> fut (reqs (snd (await ver r w)) r) = Result (PInt (current_events ver w AND event_mask (reqs w r)))
       \<and> wire (snd (await ver r w)) = wire w
       \<and> waiting_list (snd (await ver r w)) = waiting_list w
       \<and> current_events V0_2_12 w
           = (if state w = STATE_IDLE then IDLE else 0) OR (if state w AND FLAG_CONNECTED \<noteq> 0 then CONNECT else 0)
       \<and> current_events V0_3_3 w = (if state w = STATE_IDLE then IDLE else 0)"
proof -
  let ?ev = "current_events ver w AND event_mask (reqs w r)"
  let ?w1 = "arm_timeout r w"
  have k1: "kind (reqs ?w1 r) = Passive" "fut (reqs ?w1 r) = Pending"
    "rexecutor (reqs ?w1 r) = rexecutor (reqs w r)" "executor ?w1 = executor w"
    "wire ?w1 = wire w" "waiting_list ?w1 = waiting_list w"
    using assms(1,2) by (simp_all add: arm_timeout_def add_done_callback_def is_done_def split: option.splits)
  have s1: "state ?w1 = state w"
    by (simp add: arm_timeout_def add_done_callback_def split: option.splits)
  have c1: "current_events ver ?w1 = current_events ver w"
    by (simp add: current_events_def s1)
  have m1: "current_events ver w AND event_mask (reqs ?w1 r) = ?ev"
    by (simp add: arm_timeout_def add_done_callback_def is_done_def current_events_no_timeout
        split: option.splits)
  let ?w2 = "add_done_callback r (Unlog_request (rexecutor (reqs w r)) r)
               (?w1\<lparr>executor := update_executor (rexecutor (reqs w r)) (append_request r) (executor ?w1)\<rparr>)"
  have k2: "kind (reqs ?w2 r) = Passive" "fut (reqs ?w2 r) = Pending"
    "wire ?w2 = wire w" "waiting_list ?w2 = waiting_list w"
    "event_mask (reqs ?w2 r) = event_mask (reqs ?w1 r)"
    using k1 by (simp_all add: add_done_callback_def is_done_def)
  have s2: "state ?w2 = state w"
    using s1 by (simp add: add_done_callback_def)
  have c2: "current_events ver ?w2 = current_events ver w"
    by (simp add: current_events_def s2)
  have e2: "current_events ver ?w2 AND event_mask (reqs ?w2 r) = ?ev" using c2 k2(5) m1 by simp
  have w: "wait ver r ?w2 = finish r (Result (PInt ?ev)) ?w2"
    using wait_resolves[of ?w2 r ver] k2(2) e2 assms(5) by simp
  have l: "log_request ver (rexecutor (reqs w r)) r ?w1 = (Returns (), finish r (Result (PInt ?ev)) ?w2)"
    using assms(3,4) k1 k2(1) w by (simp add: log_request_def Let_def)
  have a: "await ver r w = (Returns (PInt ?ev), finish r (Result (PInt ?ev)) ?w2)"
    using assms(1) l k1(3) by (simp add: await_def Let_def future_await_def finish_def)
  show ?thesis using a k2 by (simp add: finish_def current_events_def Let_def)
qed

lemmas subscription_defs = example_subscription_def RequestPassive_def CONNECT_def PLAYER_def
  IDLE_def TIMEOUT_def current_events_def wait_def arm_timeout_def STATE_IDLE_def

text \<open>
  In 0.3.3 a subscription to \<open>CONNECT\<close> awaited on a connected client is not resolved: it
  waits.
\<close>

theorem subscription_resolves_at_once_counterexample:
  "kind (reqs example_subscription 3) = Passive
   \<and> state example_subscription AND FLAG_CONNECTED \<noteq> 0
   \<and> event_mask (reqs example_subscription 3) AND CONNECT \<noteq> 0
   \<and> fst (await V0_3_3 3 example_subscription) = Suspends
   \<and> fut (reqs (snd (await V0_3_3 3 example_subscription)) 3) = Pending
   \<and> waiting_list (snd (await V0_3_3 3 example_subscription)) = [3]"
  by (simp add: subscription_defs example_defs run_defs)

theorem subscription_resolves_at_once_witness:
  "kind (reqs example_subscription 3) = Passive
   \<and> fut (reqs example_subscription 3) = Pending
   \<and> find_executor (rexecutor (reqs example_subscription 3)) (executor example_subscription)
       = Some (Executor 0 True [] [] None None)
   \<and> current_events V0_2_12 example_subscription AND event_mask (reqs example_subscription 3) = CONNECT
   \<and> fst (await V0_2_12 3 example_subscription) = Returns (PInt CONNECT)
   \<and> fut (reqs (snd (await V0_2_12 3 example_subscription)) 3) = Result (PInt CONNECT)
   \<and> wire (snd (await V0_2_12 3 example_subscription)) = []
   \<and> waiting_list (snd (await V0_2_12 3 example_subscription)) = []"
proof -
  have 1: "kind (reqs example_subscription 3) = Passive"
    and 2: "fut (reqs example_subscription 3) = Pending"
    and 3: "find_executor (rexecutor (reqs example_subscription 3)) (executor example_subscription)
       = Some (Executor 0 True [] [] None None)"
    and 4: "has_client (Executor 0 True [] [] None None)"
    and e: "current_events V0_2_12 example_subscription AND event_mask (reqs example_subscription 3) = CONNECT"
    and w: "wire example_subscription = []" "waiting_list example_subscription = []"
    by (simp_all add: subscription_defs example_defs run_defs)
  have 5: "current_events V0_2_12 example_subscription AND event_mask (reqs example_subscription 3) \<noteq> 0"
    using e by (simp add: CONNECT_def)
  show ?thesis using subscription_resolves_at_once[OF 1 2 3 4 5] 1 2 3 e w by simp
qed

section \<open>The connection specification\<close>

lemmas connect_defs = connect_to_server_def urlsplit_netloc_def netloc_port_def netloc_hostinfo_def
  netloc_hostname_def netloc_username_def partition_char_def rpartition_char_def is_digit_def
  int_of_digits_def digit_val_def lower_def lower_char_def

text \<open>
  Claim C8. A port or a password in the specification is meant to override the caller's
  (the docstring: "Ignored if given in the 'host' argument"), but \<open>netloc.port or port\<close> and
  \<open>netloc.username or password\<close> take the caller's value when the specification gives port 0
  or an empty password.
\<close>

theorem connect_port_zero:
  "connect_to_server brackets_ok None (Some ''host:0'') 6600 None = Inr (Some ''host'', 6600, None)
   \<and> connect_to_server brackets_ok None (Some ''@host'') 6600 (Some ''secret'') = Inr (Some ''host'', 6600, Some ''secret'')"
  by (simp add: connect_defs)

text \<open>
  The specification \<open>bob@host:7700\<close> with the default port 6600 gives host \<open>host\<close>, port
  7700 and password \<open>bob\<close>, whatever the environment and the caller's password.
\<close>

theorem connect_scenario:
  "connect_to_server brackets_ok mpd_host (Some ''bob@host:7700'') 6600 password = Inr (Some ''host'', 7700, Some ''bob'')"
  by (simp add: connect_defs)

text \<open>
  A port other than 0 and a password other than the empty one in the specification take
  precedence over the caller's; without them the caller's are used; without a
  specification the environment's \<open>MPD_HOST\<close> is read in its place, and \<open>localhost\<close> without
  that.
\<close>

theorem connect_precedence:
  assumes "spec \<noteq> []" and "urlsplit_netloc brackets_ok spec = Inr netloc"
  shows "(\<forall>p. netloc_port netloc = Inr (Some p) \<and> p \<noteq> 0 \<longrightarrow>
            (\<exists>h pw. connect_to_server brackets_ok mpd_host (Some spec) port password = Inr (h, p, pw)))
       \<and> (\<forall>u p. netloc_username netloc = Some u \<and> u \<noteq> [] \<and> netloc_port netloc = Inr p \<longrightarrow>
            (\<exists>h n. connect_to_server brackets_ok mpd_host (Some spec) port password = Inr (h, n, Some u)))
       \<and> (netloc_port netloc = Inr None \<and> netloc_username netloc = None \<longrightarrow>
            connect_to_server brackets_ok mpd_host (Some spec) port password = Inr (netloc_hostname netloc, port, password))
       \<and> connect_to_server brackets_ok (Some spec) None port password = connect_to_server brackets_ok mpd_host (Some spec) port password
       \<and> connect_to_server brackets_ok None None port password = connect_to_server brackets_ok mpd_host (Some ''localhost'') port password"
  using assms by (auto simp: connect_to_server_def split: option.splits sum.splits)

theorem connect_precedence_witness:
  "''bob@host:7700'' \<noteq> [] \<and> urlsplit_netloc (\<lambda>n. True) ''bob@host:7700'' = Inr ''bob@host:7700''
   \<and> netloc_port ''bob@host:7700'' = Inr (Some 7700) \<and> netloc_username ''bob@host:7700'' = Some ''bob''
   \<and> (\<exists>h pw. connect_to_server (\<lambda>n. True) None (Some ''bob@host:7700'') 6600 None = Inr (h, 7700, pw))
   \<and> (\<exists>h n. connect_to_server (\<lambda>n. True) None (Some ''bob@host:7700'') 6600 None = Inr (h, n, Some ''bob''))
   \<and> connect_to_server (\<lambda>n. True) (Some ''bob@host:7700'') None 6600 None
       = connect_to_server (\<lambda>n. True) None (Some ''bob@host:7700'') 6600 None"
proof -
  have 1: "''bob@host:7700'' \<noteq> []" by simp
  have 2: "urlsplit_netloc (\<lambda>n. True) ''bob@host:7700'' = Inr ''bob@host:7700''" by (simp add: connect_defs)
  have 3: "netloc_port ''bob@host:7700'' = Inr (Some 7700)" by (simp add: connect_defs)
  have 4: "netloc_username ''bob@host:7700'' = Some ''bob''" by (simp add: connect_defs)
  show ?thesis using connect_precedence[OF 1 2, of None 6600 None] 2 3 4 by simp
qed

section \<open>Quoted arguments and the echo of an error\<close>

lemma escape_Nil [simp]: "replace DQUOTE [BACKSLASH, DQUOTE] [] = []"
  by (simp add: replace_def)

lemma escape_Cons [simp]:
  "replace DQUOTE [BACKSLASH, DQUOTE] (x # xs)
   = (if x = DQUOTE then BACKSLASH # DQUOTE # replace DQUOTE [BACKSLASH, DQUOTE] xs
      else x # replace DQUOTE [BACKSLASH, DQUOTE] xs)"
  by (simp add: replace_def)

lemma escape_not_quote [simp]:
  "replace DQUOTE [BACKSLASH, DQUOTE] s \<noteq> DQUOTE # z"
  "DQUOTE # z \<noteq> replace DQUOTE [BACKSLASH, DQUOTE] s"
  by (cases s; auto)+

lemma escape_inj:
  "replace DQUOTE [BACKSLASH, DQUOTE] s = replace DQUOTE [BACKSLASH, DQUOTE] t \<Longrightarrow> s = t"
proof (induction s arbitrary: t)
  case Nil
  then show ?case by (cases t) (auto split: if_splits)
next
  case (Cons x xs)
  show ?case
  proof (cases t)
    case Nil
    then show ?thesis using Cons.prems by (auto split: if_splits)
  next
    case (Cons y ys)
    then show ?thesis using Cons.prems Cons.IH[of ys]
      by (auto split: if_splits)
  qed
qed

lemma quote_arg_inj: "quote_arg (ArgStr s) = quote_arg (ArgStr t) \<Longrightarrow> s = t"
  by (simp add: escape_inj)

lemma command_line_inj:
  "command_line name [ArgStr t] = command_line name [ArgStr s] \<Longrightarrow> t = s"
  by (simp add: command_line_def join_def escape_inj)

lemma set_escape: "set (replace DQUOTE [BACKSLASH, DQUOTE] s) \<subseteq> set s \<union> {BACKSLASH, DQUOTE}"
  by (induction s) auto

lemma command_line_no_brace:
  assumes "CHR ''}'' \<notin> set name" and "CHR ''}'' \<notin> set s"
  shows "CHR ''}'' \<notin> set (command_line name [ArgStr s])"
proof -
  have "set (replace (CHR ''_'') '' '' name) \<subseteq> set name \<union> {CHR '' ''}"
    by (induction name) (auto simp: replace_def)
  then show ?thesis using assms set_escape[of s]
    by (auto simp: command_line_def join_def)
qed

lemma takeWhile_digits:
  "\<forall>c \<in> set d. is_digit c \<Longrightarrow> \<not> is_digit x \<Longrightarrow> takeWhile is_digit (d @ x # rest) = d"
  by (simp add: takeWhile_tail)

lemma dropWhile_digits:
  "\<forall>c \<in> set d. is_digit c \<Longrightarrow> \<not> is_digit x \<Longrightarrow> dropWhile is_digit (d @ x # rest) = x # rest"
  by (simp add: dropWhile_append3)

lemma match_error_line:
  assumes "d1 \<noteq> []" and "\<forall>c \<in> set d1. is_digit c" and "d2 \<noteq> []" and "\<forall>c \<in> set d2. is_digit c"
    and "CHR ''}'' \<notin> set cmd" and "LF \<notin> set msg"
  shows "match_error (''ACK ['' @ d1 @ ''@'' @ d2 @ ''] {'' @ cmd @ ''} '' @ msg)
         = Some (int_of_digits d1, int_of_digits d2, cmd, msg)"
proof -
  have n1: "\<not> is_digit (CHR ''@'')" and n2: "\<not> is_digit (CHR '']'')" by (simp_all add: is_digit_def)
  have s1: "strip_prefix ''ACK ['' (''ACK ['' @ d1 @ ''@'' @ d2 @ ''] {'' @ cmd @ ''} '' @ msg)
            = Some (d1 @ CHR ''@'' # (d2 @ ''] {'' @ cmd @ ''} '' @ msg))"
    by (simp add: strip_prefix_def)
  have t1: "takeWhile is_digit (d1 @ CHR ''@'' # (d2 @ ''] {'' @ cmd @ ''} '' @ msg)) = d1"
    using takeWhile_digits[OF assms(2) n1] .
  have r1: "dropWhile is_digit (d1 @ CHR ''@'' # (d2 @ ''] {'' @ cmd @ ''} '' @ msg))
            = CHR ''@'' # (d2 @ ''] {'' @ cmd @ ''} '' @ msg)"
    using dropWhile_digits[OF assms(2) n1] .
  have s2: "strip_prefix ''@'' (CHR ''@'' # (d2 @ ''] {'' @ cmd @ ''} '' @ msg))
            = Some (d2 @ CHR '']'' # ('' {'' @ cmd @ ''} '' @ msg))"
    by (simp add: strip_prefix_def)
  have t2: "takeWhile is_digit (d2 @ CHR '']'' # ('' {'' @ cmd @ ''} '' @ msg)) = d2"
    using takeWhile_digits[OF assms(4) n2] .
  have r2: "dropWhile is_digit (d2 @ CHR '']'' # ('' {'' @ cmd @ ''} '' @ msg))
            = CHR '']'' # ('' {'' @ cmd @ ''} '' @ msg)"
    using dropWhile_digits[OF assms(4) n2] .
  have s3: "strip_prefix ''] {'' (CHR '']'' # ('' {'' @ cmd @ ''} '' @ msg))
            = Some (cmd @ CHR ''}'' # ('' '' @ msg))"
    by (simp add: strip_prefix_def)
  have t3: "takeWhile (\<lambda>x. x \<noteq> CHR ''}'') (cmd @ CHR ''}'' # ('' '' @ msg)) = cmd"
    using assms(5) by (auto simp: takeWhile_tail)
  have r3: "dropWhile (\<lambda>x. x \<noteq> CHR ''}'') (cmd @ CHR ''}'' # ('' '' @ msg)) = CHR ''}'' # ('' '' @ msg)"
    using assms(5) by (auto simp: dropWhile_append3)
  have s4: "strip_prefix ''} '' (CHR ''}'' # ('' '' @ msg)) = Some msg"
    by (simp add: strip_prefix_def)
  have t4: "takeWhile (\<lambda>x. x \<noteq> LF) msg = msg" "dropWhile (\<lambda>x. x \<noteq> LF) msg = []"
    using assms(6) by auto
  show ?thesis
    unfolding match_error_def s1 option.case t1 r1 s2 t2 r2 s3 t3 r3 s4 t4
    using assms(1,3) by simp
qed

lemma unescape_plain:
  "c \<noteq> BACKSLASH \<Longrightarrow> c \<noteq> DQUOTE \<Longrightarrow> unescape (c # xs) = map_option (\<lambda>s. c # s) (unescape xs)"
  by (cases xs) simp_all

lemma unescape_escape:
  "BACKSLASH \<notin> set s \<Longrightarrow> unescape (replace DQUOTE [BACKSLASH, DQUOTE] s) = Some s"
  by (induction s) (auto simp: unescape_plain)

lemma decode_argument_command_line:
  "BACKSLASH \<notin> set s \<Longrightarrow> decode_argument name (command_line name [ArgStr s]) = Some s"
  by (simp add: decode_argument_def command_line_def join_def strip_prefix_def unquote_def
      unescape_escape)

text \<open>
  Claim C5. The argument \<open>a"b\c\<close> is written as \<open>"a\"b\c"\<close>: the quoting puts a backslash
  before the double quote and leaves the backslash of the argument as it is. An \<open>ACK\<close> line
  that echoes the command line is recognised and the \<open>ReplyError\<close> holds the line as it was
  written, but read back, the backslash stands for the character after it and the argument
  that comes out is \<open>a"bc\<close>, not the one that went in.
\<close>

theorem backslash_not_escaped:
  "commandline (reqs example_arguments 0)
     = ''add '' @ [DQUOTE, CHR ''a'', BACKSLASH, DQUOTE, CHR ''b'', BACKSLASH, CHR ''c'', DQUOTE]
   \<and> fut (reqs (snd (request_process_reply 0
          [''ACK [50@0] {'' @ commandline (reqs example_arguments 0) @ ''} No such song'']
          example_arguments)) 0)
       = Exception (ReplyError 50 0
           (''add '' @ [DQUOTE, CHR ''a'', BACKSLASH, DQUOTE, CHR ''b'', BACKSLASH, CHR ''c'', DQUOTE])
           ''No such song''
           (''add '' @ [DQUOTE, CHR ''a'', BACKSLASH, DQUOTE, CHR ''b'', BACKSLASH, CHR ''c'', DQUOTE]))
   \<and> decode_argument ''add''
         (''add '' @ [DQUOTE, CHR ''a'', BACKSLASH, DQUOTE, CHR ''b'', BACKSLASH, CHR ''c'', DQUOTE])
       = Some [CHR ''a'', DQUOTE, CHR ''b'', CHR ''c'']
   \<and> [CHR ''a'', DQUOTE, CHR ''b'', CHR ''c''] \<noteq> [CHR ''a'', DQUOTE, CHR ''b'', BACKSLASH, CHR ''c'']"
  by (simp add: example_arguments_def example_defs run_defs decode_argument_def unquote_def
      is_digit_def int_of_digits_def digit_val_def set_exception_def)

text \<open>
  A command with one string argument, where neither the name nor the argument holds a
  closing brace, fails with an \<open>ACK\<close> line that echoes its command line between the braces.
  The parser recognises the line, and the \<open>ReplyError\<close> holds the command line as it was
  written, both as the echoed command and as the request's own line. The command line
  determines the argument, and it reads back as the argument when this holds no backslash.
\<close>

theorem ack_echo_determines_argument:
  assumes "CHR ''}'' \<notin> set name" and "CHR ''}'' \<notin> set s"
    and "d1 \<noteq> []" and "\<forall>c \<in> set d1. is_digit c" and "d2 \<noteq> []" and "\<forall>c \<in> set d2. is_digit c"
    and "LF \<notin> set msg"
    and "fut (reqs w r) = Pending" and "commandline (reqs w r) = command_line name [ArgStr s]"
  shows "commandline_parser SUCCESS r []
           [''ACK ['' @ d1 @ ''@'' @ d2 @ ''] {'' @ command_line name [ArgStr s] @ ''} '' @ msg] w
         = (Returns (), [],
            finish r (Exception (ReplyError (int_of_digits d1) (int_of_digits d2)
                        (command_line name [ArgStr s]) msg (command_line name [ArgStr s]))) w)
       \<and> (\<forall>t. command_line name [ArgStr t] = command_line name [ArgStr s] \<longrightarrow> t = s)
       \<and> (BACKSLASH \<notin> set s \<longrightarrow> decode_argument name (command_line name [ArgStr s]) = Some s)"
proof -
  have m: "match_error (''ACK ['' @ d1 @ ''@'' @ d2 @ ''] {'' @ command_line name [ArgStr s] @ ''} '' @ msg)
         = Some (int_of_digits d1, int_of_digits d2, command_line name [ArgStr s], msg)"
    using match_error_line[OF assms(3,4,5,6) command_line_no_brace[OF assms(1,2)] assms(7)] .
  have d: "\<not> is_done w r" using assms(8) by (simp add: is_done_def)
  have e: "\<forall>l \<in> set []. field_line SUCCESS l" by simp
  show ?thesis
    using commandline_parser_error[OF e m d, of "[]" "[]"] assms(9) command_line_inj
      decode_argument_command_line[of s name]
    by auto
qed

text \<open>
  With the argument \<open>}\<close> the echo ends the braces early: the line does not match the error
  pattern, the parser takes it for a payload line without delimiter, and the request stays
  pending.
\<close>

theorem ack_echo_closing_brace:
  "commandline (reqs example_arguments 1) = command_line ''add'' [ArgStr ''}'']
   \<and> fst (commandline_parser SUCCESS 1 []
          [''ACK [50@0] {'' @ command_line ''add'' [ArgStr ''}''] @ ''} No such song''] example_arguments)
       = Raises ValueError
   \<and> fut (reqs (snd (snd (commandline_parser SUCCESS 1 []
          [''ACK [50@0] {'' @ command_line ''add'' [ArgStr ''}''] @ ''} No such song''] example_arguments))) 1)
       = Pending"
  by (simp add: example_arguments_def example_defs match_error_def strip_prefix_def is_digit_def
      SUCCESS_def DELIM_def)

theorem ack_echo_determines_argument_witness:
  "commandline (reqs example_arguments 2) = command_line ''add'' [ArgStr [CHR ''a'', DQUOTE, CHR ''b'']]
   \<and> command_line ''add'' [ArgStr [CHR ''a'', DQUOTE, CHR ''b'']] = ''add '' @ [DQUOTE, CHR ''a'', BACKSLASH, DQUOTE, CHR ''b'', DQUOTE]
   \<and> fst (commandline_parser SUCCESS 2 []
          [''ACK [50@0] {'' @ command_line ''add'' [ArgStr [CHR ''a'', DQUOTE, CHR ''b'']] @ ''} No such song'']
          example_arguments) = Returns ()
   \<and> fut (reqs (snd (snd (commandline_parser SUCCESS 2 []
          [''ACK [50@0] {'' @ command_line ''add'' [ArgStr [CHR ''a'', DQUOTE, CHR ''b'']] @ ''} No such song'']
          example_arguments))) 2)
       = Exception (ReplyError 50 0 (''add '' @ [DQUOTE, CHR ''a'', BACKSLASH, DQUOTE, CHR ''b'', DQUOTE]) ''No such song'' (''add '' @ [DQUOTE, CHR ''a'', BACKSLASH, DQUOTE, CHR ''b'', DQUOTE]))
   \<and> decode_argument ''add'' (''add '' @ [DQUOTE, CHR ''a'', BACKSLASH, DQUOTE, CHR ''b'', DQUOTE]) = Some [CHR ''a'', DQUOTE, CHR ''b'']"
proof -
  have 1: "CHR ''}'' \<notin> set ''add''" by simp
  have 2: "CHR ''}'' \<notin> set [CHR ''a'', DQUOTE, CHR ''b'']" by simp
  have 3: "''50'' \<noteq> []" and 4: "\<forall>c \<in> set ''50''. is_digit c"
    and 5: "''0'' \<noteq> []" and 6: "\<forall>c \<in> set ''0''. is_digit c"
    and 7: "LF \<notin> set ''No such song''"
    by (simp_all add: is_digit_def)
  have 8: "fut (reqs example_arguments 2) = Pending"
    and 9: "commandline (reqs example_arguments 2) = command_line ''add'' [ArgStr [CHR ''a'', DQUOTE, CHR ''b'']]"
    by (simp_all add: example_arguments_def example_defs)
  have b: "BACKSLASH \<notin> set [CHR ''a'', DQUOTE, CHR ''b'']" by simp
  have c: "command_line ''add'' [ArgStr [CHR ''a'', DQUOTE, CHR ''b'']] = ''add '' @ [DQUOTE, CHR ''a'', BACKSLASH, DQUOTE, CHR ''b'', DQUOTE]"
    by (simp add: command_line_def join_def replace_def)
  have i: "int_of_digits ''50'' = 50" "int_of_digits ''0'' = 0"
    by (simp_all add: int_of_digits_def digit_val_def)
  show ?thesis
    using ack_echo_determines_argument[OF 1 2 3 4 5 6 7 8 9] 9 i b
    by (simp add: c finish_def)
qed

section \<open>Closing executors\<close>

lemma fails_refl [simp]: "fails ver w w"
  by (simp add: fails_def)

lemma fails_trans: "fails ver w w1 \<Longrightarrow> fails ver w1 w2 \<Longrightarrow> fails ver w w2"
  unfolding fails_def by metis

lemma fail_request_props:
  "wire (fail_request ver r w) = wire w"
  "executor (fail_request ver r w) = executor w"
  "fails ver w (fail_request ver r w)"
  "fut (reqs (fail_request ver r w) r) \<noteq> Pending"
  "\<exists>t. trace (fail_request ver r w) = trace w @ t \<and> set t \<subseteq> {Resolved r}"
  by (auto simp: fail_request_def cancel_def set_exception_def finish_def is_done_def fails_def failed_def)

lemma fail_requests_props:
  "wire (foldl (\<lambda>w' r. fail_request ver r w') w rq) = wire w
   \<and> executor (foldl (\<lambda>w' r. fail_request ver r w') w rq) = executor w
   \<and> fails ver w (foldl (\<lambda>w' r. fail_request ver r w') w rq)
   \<and> (\<forall>r \<in> set rq. fut (reqs (foldl (\<lambda>w' r. fail_request ver r w') w rq) r) \<noteq> Pending)
   \<and> (\<exists>t. trace (foldl (\<lambda>w' r. fail_request ver r w') w rq) = trace w @ t \<and> set t \<subseteq> Resolved ` set rq)"
proof (induction rq rule: rev_induct)
  case Nil
  then show ?case by simp
next
  case (snoc a rq)
  let ?w1 = "foldl (\<lambda>w' r. fail_request ver r w') w rq"
  obtain t where t: "trace ?w1 = trace w @ t" "set t \<subseteq> Resolved ` set rq" using snoc by blast
  obtain t' where t': "trace (fail_request ver a ?w1) = trace ?w1 @ t'" "set t' \<subseteq> {Resolved a}"
    using fail_request_props(5)[of ver a ?w1] by blast
  have tr: "trace (fail_request ver a ?w1) = trace w @ (t @ t')" "set (t @ t') \<subseteq> Resolved ` set (rq @ [a])"
    using t t' by auto
  have f: "fails ver w (fail_request ver a ?w1)"
    using snoc fails_trans[OF _ fail_request_props(3)] by blast
  have d: "\<forall>r \<in> set (rq @ [a]). fut (reqs (fail_request ver a ?w1) r) \<noteq> Pending"
  proof
    fix r assume "r \<in> set (rq @ [a])"
    then consider "r = a" | "r \<in> set rq" by auto
    then show "fut (reqs (fail_request ver a ?w1) r) \<noteq> Pending"
    proof cases
      case 1
      then show ?thesis using fail_request_props(4) by simp
    next
      case 2
      then have "fut (reqs ?w1 r) \<noteq> Pending" using snoc by blast
      then show ?thesis using fail_request_props(3)[of ver ?w1 a] by (metis fails_def)
    qed
  qed
  have w: "wire (fail_request ver a ?w1) = wire w" "executor (fail_request ver a ?w1) = executor w"
    using snoc by (simp_all add: fail_request_props)
  show ?case using tr f d w by auto
qed

lemma close_node_props:
  "open_tree x \<Longrightarrow>
      \<exists>w' t. close_node ver x w = Some w' \<and> trace w' = trace w @ t @ [Closed (eid x)]
         \<and> wire w' = wire w \<and> executor w' = executor w \<and> fails ver w w'
         \<and> (\<forall>r \<in> set (requests x). fut (reqs w' r) \<noteq> Pending)"
  and close_children_props:
  "list_all open_tree xs \<Longrightarrow>
      \<exists>w' t. close_children ver xs w = Some w' \<and> trace w' = trace w @ t
         \<and> (\<forall>c \<in> set xs. Closed (eid c) \<in> set t)
         \<and> wire w' = wire w \<and> executor w' = executor w \<and> fails ver w w'
         \<and> (\<forall>c \<in> set xs. \<forall>r \<in> set (requests c). fut (reqs w' r) \<noteq> Pending)"
proof (induction ver x w and ver xs w rule: close_node_close_children.induct)
  case (1 ver i c ch rq ccb dcb w)
  show ?case
  proof -
    have o: "open_tree (Executor i c ch rq ccb dcb)" using 1 by simp
    then have c: "c" and och: "list_all open_tree ch" by simp_all
    obtain w1 t where w1: "close_children ver ch w = Some w1" "trace w1 = trace w @ t"
      "\<forall>c \<in> set ch. Closed (eid c) \<in> set t" "wire w1 = wire w" "executor w1 = executor w"
      "fails ver w w1"
      using 1 c och by blast
    let ?w2 = "foldl (\<lambda>w' r. fail_request ver r w') w1 rq"
    obtain t2 where t2: "trace ?w2 = trace w1 @ t2" "set t2 \<subseteq> Resolved ` set rq"
      using fail_requests_props[of ver w1 rq] by blast
    have p: "wire ?w2 = wire w1" "executor ?w2 = executor w1" "fails ver w1 ?w2"
      "\<forall>r \<in> set rq. fut (reqs ?w2 r) \<noteq> Pending"
      using fail_requests_props[of ver w1 rq] by blast+
    let ?w' = "?w2\<lparr>trace := trace ?w2 @ [Closed i]\<rparr>"
    have r: "close_node ver (Executor i c ch rq ccb dcb) w = Some ?w'" using c w1(1) by simp
    have f: "fails ver w ?w'" using fails_trans[OF w1(6) p(3)] by (simp add: fails_def)
    have "trace ?w' = trace w @ (t @ t2) @ [Closed i]" using t2 w1(2) by simp
    then show "\<exists>w' t. close_node ver (Executor i c ch rq ccb dcb) w = Some w'
         \<and> trace w' = trace w @ t @ [Closed (eid (Executor i c ch rq ccb dcb))]
         \<and> wire w' = wire w \<and> executor w' = executor w \<and> fails ver w w'
         \<and> (\<forall>r \<in> set (requests (Executor i c ch rq ccb dcb)). fut (reqs w' r) \<noteq> Pending)"
      using r f p w1 by (intro exI[of _ ?w'] exI[of _ "t @ t2"]) simp
  qed
next
  case (2 ver w)
  then show ?case by simp
next
  case (3 ver x xs w)
  show ?case
  proof -
    have o: "list_all open_tree (x # xs)" using 3 by simp
    then have ox: "open_tree x" and oxs: "list_all open_tree xs" by simp_all
    have hc: "has_client x" using ox by (cases x) simp
    obtain w1 t1 where w1: "close_node ver x w = Some w1" "trace w1 = trace w @ t1 @ [Closed (eid x)]"
      "wire w1 = wire w" "executor w1 = executor w" "fails ver w w1"
      "\<forall>r \<in> set (requests x). fut (reqs w1 r) \<noteq> Pending"
      using 3(1) hc ox by blast
    obtain w2 t2 where w2: "close_children ver xs w1 = Some w2" "trace w2 = trace w1 @ t2"
      "\<forall>c \<in> set xs. Closed (eid c) \<in> set t2" "wire w2 = wire w1" "executor w2 = executor w1"
      "fails ver w1 w2" "\<forall>c \<in> set xs. \<forall>r \<in> set (requests c). fut (reqs w2 r) \<noteq> Pending"
      using 3(2)[of w1] hc w1(1) oxs by blast
    have r: "close_children ver (x # xs) w = Some w2" using hc w1(1) w2(1) by simp
    have t: "trace w2 = trace w @ (t1 @ [Closed (eid x)] @ t2)" using w1(2) w2(2) by simp
    have cl: "\<forall>c \<in> set (x # xs). Closed (eid c) \<in> set (t1 @ [Closed (eid x)] @ t2)"
      using w2(3) by auto
    have f: "fails ver w w2" using fails_trans[OF w1(5) w2(6)] .
    have d: "\<forall>c \<in> set (x # xs). \<forall>r \<in> set (requests c). fut (reqs w2 r) \<noteq> Pending"
    proof (intro ballI)
      fix c r assume c: "c \<in> set (x # xs)" and rr: "r \<in> set (requests c)"
      show "fut (reqs w2 r) \<noteq> Pending"
      proof (cases "c = x")
        case True
        then have "fut (reqs w1 r) \<noteq> Pending" using w1(6) rr by simp
        then show ?thesis using w2(6) by (metis fails_def)
      next
        case False
        then show ?thesis using c rr w2(7) by simp
      qed
    qed
    show "\<exists>w' t. close_children ver (x # xs) w = Some w' \<and> trace w' = trace w @ t
         \<and> (\<forall>c \<in> set (x # xs). Closed (eid c) \<in> set t)
         \<and> wire w' = wire w \<and> executor w' = executor w \<and> fails ver w w'
         \<and> (\<forall>c \<in> set (x # xs). \<forall>r \<in> set (requests c). fut (reqs w' r) \<noteq> Pending)"
      using r t cl f d w1 w2 by (intro exI[of _ w2] exI[of _ "t1 @ [Closed (eid x)] @ t2"]) simp
  qed
qed

lemma find_in_None: "(\<forall>x \<in> set xs. find_executor i x = None) \<Longrightarrow> find_in i xs = None"
  by (induction xs) simp_all

lemma find_executor_eid:
  "find_executor i t = Some x \<Longrightarrow> eid x = i"
  and find_in_eid: "find_in i ts = Some x \<Longrightarrow> eid x = i"
  by (induction i t and i ts rule: find_executor_find_in.induct) (auto split: if_splits option.splits)

lemma find_remove_executor:
  "eid t \<noteq> i \<Longrightarrow> find_executor i (remove_executor i t) = None"
proof (induction i t rule: remove_executor.induct)
  case (1 i j c ch rq ccb dcb)
  have "\<forall>x \<in> set (map (remove_executor i) (filter (\<lambda>x. eid x \<noteq> i) ch)). find_executor i x = None"
    using 1 by auto
  then show ?case using 1(2) find_in_None by simp
qed

lemma is_closed_detach:
  "is_closed (w\<lparr>executor := detach e (executor w)\<rparr>) e"
  by (cases "eid (executor w) = e") (simp_all add: is_closed_def detach_def find_remove_executor)

lemma closed_close: "is_closed w e \<Longrightarrow> close ver e w = Some w"
proof -
  assume c: "is_closed w e"
  show ?thesis
  proof (cases "find_executor e (executor w)")
    case None
    then show ?thesis by (simp add: close_def)
  next
    case (Some x)
    then have "\<not> has_client x" using c by (simp add: is_closed_def)
    then have "close_node ver x w = Some w" by (cases x) simp
    then show ?thesis using Some \<open>\<not> has_client x\<close> by (simp add: close_def)
  qed
qed

lemma closed_await:
  assumes "is_closed w e" and "kind (reqs w r) \<noteq> Welcome" and "rexecutor (reqs w r) = e"
  shows "fst (await ver r w) = Raises ConnectionError \<and> wire (snd (await ver r w)) = wire w
       \<and> active_queue (snd (await ver r w)) = active_queue w"
proof -
  let ?w1 = "(if kind (reqs w r) = Passive then arm_timeout r w else w)"
  have a: "executor ?w1 = executor w" "rexecutor (reqs ?w1 r) = e" "wire ?w1 = wire w"
    "active_queue ?w1 = active_queue w"
    using assms(3) by (simp_all add: arm_timeout_def add_done_callback_def split: option.splits)
  have "log_request ver e r ?w1 = (Raises ConnectionError, ?w1)"
    using assms(1) a(1) by (simp add: log_request_def is_closed_def split: option.splits)
  then have "await ver r w = (Raises ConnectionError, ?w1)"
    using assms(2) a(2) by (simp add: await_def Let_def)
  then show ?thesis using a by simp
qed

lemma first_occurrences_snoc:
  "first_occurrences (xs @ [a]) = (if a \<in> set xs then first_occurrences xs else first_occurrences xs @ [a])"
  by (simp add: first_occurrences_def)

lemma set_first_occurrences [simp]: "set (first_occurrences xs) = set xs"
  by (simp add: first_occurrences_def)

lemma failed_not_pending [simp]: "failed ver \<noteq> Pending" "Pending \<noteq> failed ver"
  by (simp_all add: failed_def)

lemma fail_request_exact:
  "trace (fail_request ver r w) = trace w @ (if fut (reqs w r) = Pending then [Resolved r] else [])"
  "fut (reqs (fail_request ver r w) x)
     = (if x = r \<and> fut (reqs w r) = Pending then failed ver else fut (reqs w x))"
  by (auto simp: fail_request_def cancel_def set_exception_def finish_def is_done_def failed_def)

lemma fail_requests_exact:
  "trace (foldl (\<lambda>w' r. fail_request ver r w') w rq)
     = trace w @ map Resolved (first_occurrences (filter (\<lambda>r. fut (reqs w r) = Pending) rq))
   \<and> (\<forall>x. fut (reqs (foldl (\<lambda>w' r. fail_request ver r w') w rq) x)
            = (if x \<in> set rq \<and> fut (reqs w x) = Pending then failed ver else fut (reqs w x)))"
proof (induction rq rule: rev_induct)
  case Nil
  then show ?case by (simp add: first_occurrences_def)
next
  case (snoc a rq)
  define w1 where "w1 = foldl (\<lambda>w' r. fail_request ver r w') w rq"
  have t: "trace w1 = trace w @ map Resolved (first_occurrences (filter (\<lambda>r. fut (reqs w r) = Pending) rq))"
    and f: "\<And>x. fut (reqs w1 x) = (if x \<in> set rq \<and> fut (reqs w x) = Pending then failed ver else fut (reqs w x))"
    using snoc by (simp_all add: w1_def)
  have p: "fut (reqs w1 a) = Pending \<longleftrightarrow> fut (reqs w a) = Pending \<and> a \<notin> set rq"
    using f[of a] by auto
  have "trace (fail_request ver a w1)
     = trace w @ map Resolved (first_occurrences (filter (\<lambda>r. fut (reqs w r) = Pending) (rq @ [a])))"
    using t p by (auto simp: fail_request_exact first_occurrences_snoc)
  moreover have "\<forall>x. fut (reqs (fail_request ver a w1) x)
            = (if x \<in> set (rq @ [a]) \<and> fut (reqs w x) = Pending then failed ver else fut (reqs w x))"
    using f p by (auto simp: fail_request_exact)
  ultimately show ?case by (simp add: w1_def)
qed

lemma closing_order_self: "closing_order x = descendants x @ [x]"
  by (cases x) (simp add: descendants_def)

lemma close_node_trace:
  "open_tree x \<Longrightarrow>
      \<exists>w' t. close_node ver x w = Some w' \<and> trace w' = trace w @ t
         \<and> [a \<leftarrow> t. \<exists>i. a = Closed i] = map (\<lambda>d. Closed (eid d)) (closing_order x)
         \<and> (\<forall>a \<in> set t. (\<exists>i. a = Closed i)
               \<or> (\<exists>r. a = Resolved r \<and> r \<in> (\<Union>d \<in> set (closing_order x). set (requests d))))
         \<and> (\<forall>r. fut (reqs w' r) = Pending \<longleftrightarrow> fut (reqs w r) = Pending \<and> Resolved r \<notin> set t)"
  and close_children_trace:
  "list_all open_tree xs \<Longrightarrow>
      \<exists>w' t. close_children ver xs w = Some w' \<and> trace w' = trace w @ t
         \<and> [a \<leftarrow> t. \<exists>i. a = Closed i] = map (\<lambda>d. Closed (eid d)) (concat (map closing_order xs))
         \<and> (\<forall>a \<in> set t. (\<exists>i. a = Closed i)
               \<or> (\<exists>r. a = Resolved r \<and> r \<in> (\<Union>d \<in> set (concat (map closing_order xs)). set (requests d))))
         \<and> (\<forall>r. fut (reqs w' r) = Pending \<longleftrightarrow> fut (reqs w r) = Pending \<and> Resolved r \<notin> set t)"
proof (induction ver x w and ver xs w rule: close_node_close_children.induct)
  case (1 ver i c ch rq ccb dcb w)
  have c: "c" and och: "list_all open_tree ch" using 1(2) by simp_all
  obtain w1 t1 where w1: "close_children ver ch w = Some w1" "trace w1 = trace w @ t1"
    "[a \<leftarrow> t1. \<exists>i. a = Closed i] = map (\<lambda>d. Closed (eid d)) (concat (map closing_order ch))"
    "\<forall>a \<in> set t1. (\<exists>i. a = Closed i)
               \<or> (\<exists>r. a = Resolved r \<and> r \<in> (\<Union>d \<in> set (concat (map closing_order ch)). set (requests d)))"
    "\<forall>r. fut (reqs w1 r) = Pending \<longleftrightarrow> fut (reqs w r) = Pending \<and> Resolved r \<notin> set t1"
    using 1(1) c och by blast
  define w2 where "w2 = foldl (\<lambda>w' r. fail_request ver r w') w1 rq"
  define own where "own = first_occurrences (filter (\<lambda>r. fut (reqs w1 r) = Pending) rq)"
  have t2: "trace w2 = trace w1 @ map Resolved own"
    and f2: "\<And>x. fut (reqs w2 x) = (if x \<in> set rq \<and> fut (reqs w1 x) = Pending then failed ver else fut (reqs w1 x))"
    using fail_requests_exact[of ver w1 rq] by (simp_all add: w2_def own_def)
  define w' where "w' = w2\<lparr>trace := trace w2 @ [Closed i]\<rparr>"
  define t where "t = t1 @ map Resolved own @ [Closed i]"
  have r: "close_node ver (Executor i c ch rq ccb dcb) w = Some w'"
    using c w1(1) by (simp add: w'_def w2_def)
  have tr: "trace w' = trace w @ t" using t2 w1(2) by (simp add: w'_def t_def)
  have fr: "[a \<leftarrow> map Resolved own. \<exists>i. a = Closed i] = []" by (induction own) simp_all
  have cl: "[a \<leftarrow> t. \<exists>i. a = Closed i] = map (\<lambda>d. Closed (eid d)) (closing_order (Executor i c ch rq ccb dcb))"
    using w1(3) fr by (simp add: t_def)
  have so: "set own = {r \<in> set rq. fut (reqs w1 r) = Pending}" by (auto simp: own_def)
  have en: "\<forall>a \<in> set t. (\<exists>i. a = Closed i)
               \<or> (\<exists>r. a = Resolved r \<and> r \<in> (\<Union>d \<in> set (closing_order (Executor i c ch rq ccb dcb)). set (requests d)))"
    using w1(4) so by (auto simp: t_def)
  have pe: "\<forall>r. fut (reqs w' r) = Pending \<longleftrightarrow> fut (reqs w r) = Pending \<and> Resolved r \<notin> set t"
  proof
    fix r
    have "fut (reqs w' r) = Pending \<longleftrightarrow> fut (reqs w1 r) = Pending \<and> r \<notin> set rq"
      using f2[of r] by (auto simp: w'_def)
    also have "\<dots> \<longleftrightarrow> fut (reqs w1 r) = Pending \<and> r \<notin> set own" using so by auto
    also have "\<dots> \<longleftrightarrow> fut (reqs w r) = Pending \<and> Resolved r \<notin> set t"
      using w1(5) by (auto simp: t_def)
    finally show "fut (reqs w' r) = Pending \<longleftrightarrow> fut (reqs w r) = Pending \<and> Resolved r \<notin> set t" .
  qed
  show ?case using r tr cl en pe by blast
next
  case (2 ver w)
  then show ?case by simp
next
  case (3 ver x xs w)
  have ox: "open_tree x" and oxs: "list_all open_tree xs" using 3(3) by simp_all
  have hc: "has_client x" using ox by (cases x) simp
  obtain w1 t1 where w1: "close_node ver x w = Some w1" "trace w1 = trace w @ t1"
    "[a \<leftarrow> t1. \<exists>i. a = Closed i] = map (\<lambda>d. Closed (eid d)) (closing_order x)"
    "\<forall>a \<in> set t1. (\<exists>i. a = Closed i)
               \<or> (\<exists>r. a = Resolved r \<and> r \<in> (\<Union>d \<in> set (closing_order x). set (requests d)))"
    "\<forall>r. fut (reqs w1 r) = Pending \<longleftrightarrow> fut (reqs w r) = Pending \<and> Resolved r \<notin> set t1"
    using 3(1) hc ox by blast
  obtain w2 t2 where w2: "close_children ver xs w1 = Some w2" "trace w2 = trace w1 @ t2"
    "[a \<leftarrow> t2. \<exists>i. a = Closed i] = map (\<lambda>d. Closed (eid d)) (concat (map closing_order xs))"
    "\<forall>a \<in> set t2. (\<exists>i. a = Closed i)
               \<or> (\<exists>r. a = Resolved r \<and> r \<in> (\<Union>d \<in> set (concat (map closing_order xs)). set (requests d)))"
    "\<forall>r. fut (reqs w2 r) = Pending \<longleftrightarrow> fut (reqs w1 r) = Pending \<and> Resolved r \<notin> set t2"
    using 3(2)[of w1] hc w1(1) oxs by blast
  have r: "close_children ver (x # xs) w = Some w2" using hc w1(1) w2(1) by simp
  have tr: "trace w2 = trace w @ (t1 @ t2)" using w1(2) w2(2) by simp
  have cl: "[a \<leftarrow> t1 @ t2. \<exists>i. a = Closed i] = map (\<lambda>d. Closed (eid d)) (concat (map closing_order (x # xs)))"
    using w1(3) w2(3) by simp
  have en: "\<forall>a \<in> set (t1 @ t2). (\<exists>i. a = Closed i)
               \<or> (\<exists>r. a = Resolved r \<and> r \<in> (\<Union>d \<in> set (concat (map closing_order (x # xs))). set (requests d)))"
    using w1(4) w2(4) by auto
  have pe: "\<forall>r. fut (reqs w2 r) = Pending \<longleftrightarrow> fut (reqs w r) = Pending \<and> Resolved r \<notin> set (t1 @ t2)"
    using w1(5) w2(5) by auto
  show ?case using r tr cl en pe by blast
qed

text \<open>
  Claim C10. Closing an executor without client (closed before, in the tree or detached)
  changes nothing. Closing an executor \<open>x\<close> whose tree is open returns, and the trace it adds
  has three parts. First comes the closing of the children: there every descendant of \<open>x\<close> is
  closed, one after the other in depth-first order, and the only requests completed are
  requests held by descendants. Then come the completions of the requests of \<open>x\<close> itself,
  namely those that were pending and that no descendant's closing has completed, each once
  in the order of \<open>_requests\<close>. Last, \<open>x\<close> is closed. Every request of \<open>x\<close> and of its children
  that was pending has failed (cancelled in 0.2.12, with \<open>ConnectionError\<close> in 0.3.3), nothing
  was written, and \<open>x\<close> has no client. Awaiting a request created by an executor without
  client raises \<open>ConnectionError\<close> and writes nothing. So a second close has no effect and the
  requests of a closed executor can no longer be issued.
\<close>

theorem close_is_terminal:
  "(is_closed w e \<longrightarrow> close ver e w = Some w)
   \<and> (\<forall>x. find_executor e (executor w) = Some x \<and> open_tree x \<longrightarrow>
        (\<exists>w' tc. close ver e w = Some w'
           \<and> trace w' = trace w @ tc
               @ map Resolved (first_occurrences
                   [r \<leftarrow> requests x. fut (reqs w r) = Pending \<and> Resolved r \<notin> set tc])
               @ [Closed e]
           \<and> [a \<leftarrow> tc. \<exists>i. a = Closed i] = map (\<lambda>d. Closed (eid d)) (descendants x)
           \<and> (\<forall>a \<in> set tc. (\<exists>i. a = Closed i)
                 \<or> (\<exists>r. a = Resolved r \<and> r \<in> (\<Union>d \<in> set (descendants x). set (requests d))))
           \<and> (\<forall>c \<in> set (children x). Closed (eid c) \<in> set tc)
           \<and> (\<forall>r \<in> set (requests x). fut (reqs w r) = Pending \<longrightarrow> fut (reqs w' r) = failed ver)
           \<and> (\<forall>c \<in> set (children x). \<forall>r \<in> set (requests c).
                 fut (reqs w r) = Pending \<longrightarrow> fut (reqs w' r) = failed ver)
           \<and> wire w' = wire w
           \<and> is_closed w' e))
   \<and> (is_closed w e \<longrightarrow>
        (\<forall>r. kind (reqs w r) \<noteq> Welcome \<and> rexecutor (reqs w r) = e \<longrightarrow>
           fst (await ver r w) = Raises ConnectionError \<and> wire (snd (await ver r w)) = wire w))"
proof (intro conjI allI impI)
  assume "is_closed w e"
  then show "close ver e w = Some w" by (rule closed_close)
next
  fix r assume "is_closed w e" and "kind (reqs w r) \<noteq> Welcome \<and> rexecutor (reqs w r) = e"
  then show "fst (await ver r w) = Raises ConnectionError" "wire (snd (await ver r w)) = wire w"
    using closed_await[of w e r ver] by simp_all
next
  fix x assume a: "find_executor e (executor w) = Some x \<and> open_tree x"
  obtain i c ch rq ccb dcb where x: "x = Executor i c ch rq ccb dcb" by (cases x)
  have c: "c" and och: "list_all open_tree ch" using a x by simp_all
  have i: "i = e" using find_executor_eid[of e "executor w" x] a x by simp
  obtain w1 tc where w1: "close_children ver ch w = Some w1" "trace w1 = trace w @ tc"
    "\<forall>c \<in> set ch. Closed (eid c) \<in> set tc" "wire w1 = wire w" "executor w1 = executor w"
    "fails ver w w1" "\<forall>c \<in> set ch. \<forall>r \<in> set (requests c). fut (reqs w1 r) \<noteq> Pending"
    using close_children_props[OF och, of ver w] by blast
  obtain w1' tc' where w1': "close_children ver ch w = Some w1'" "trace w1' = trace w @ tc'"
    "[a \<leftarrow> tc'. \<exists>i. a = Closed i] = map (\<lambda>d. Closed (eid d)) (concat (map closing_order ch))"
    "\<forall>a \<in> set tc'. (\<exists>i. a = Closed i)
        \<or> (\<exists>r. a = Resolved r \<and> r \<in> (\<Union>d \<in> set (concat (map closing_order ch)). set (requests d)))"
    "\<forall>r. fut (reqs w1' r) = Pending \<longleftrightarrow> fut (reqs w r) = Pending \<and> Resolved r \<notin> set tc'"
    using close_children_trace[OF och, of ver w] by blast
  have same: "w1' = w1" "tc' = tc" using w1(1,2) w1'(1,2) by simp_all
  have de: "descendants x = concat (map closing_order ch)" using x by (simp add: descendants_def)
  have cls: "[a \<leftarrow> tc. \<exists>i. a = Closed i] = map (\<lambda>d. Closed (eid d)) (descendants x)"
    using w1'(3) same de by simp
  have ent: "\<forall>a \<in> set tc. (\<exists>i. a = Closed i)
        \<or> (\<exists>r. a = Resolved r \<and> r \<in> (\<Union>d \<in> set (descendants x). set (requests d)))"
    using w1'(4) same de by simp
  have pend: "\<And>r. fut (reqs w1 r) = Pending \<longleftrightarrow> fut (reqs w r) = Pending \<and> Resolved r \<notin> set tc"
    using w1'(5) same by simp
  define w2 where "w2 = foldl (\<lambda>w' r. fail_request ver r w') w1 rq"
  define own where "own = first_occurrences [r \<leftarrow> rq. fut (reqs w r) = Pending \<and> Resolved r \<notin> set tc]"
  have "[r \<leftarrow> rq. fut (reqs w1 r) = Pending] = [r \<leftarrow> rq. fut (reqs w r) = Pending \<and> Resolved r \<notin> set tc]"
    using pend by simp
  then have tr: "trace w2 = trace w1 @ map Resolved own"
    unfolding w2_def own_def using fail_requests_exact[of ver w1 rq] by simp
  have p: "wire w2 = wire w1" "executor w2 = executor w1" "fails ver w1 w2"
    "\<forall>r \<in> set rq. fut (reqs w2 r) \<noteq> Pending"
    unfolding w2_def using fail_requests_props[of ver w1 rq] by blast+
  define w3 where "w3 = w2\<lparr>trace := trace w2 @ [Closed i]\<rparr>"
  define w' where "w' = w3\<lparr>executor := detach e (executor w3)\<rparr>"
  have q3: "reqs w3 = reqs w2" "wire w3 = wire w2" "trace w3 = trace w2 @ [Closed i]"
    "executor w3 = executor w2"
    by (simp_all add: w3_def)
  have q': "reqs w' = reqs w3" "wire w' = wire w3" "trace w' = trace w3"
    by (simp_all add: w'_def)
  have cn: "close_node ver x w = Some w3" using x c w1(1) by (simp add: w3_def w2_def)
  have cl: "close ver e w = Some w'" using a cn x c by (simp add: close_def w'_def)
  have f2: "fails ver w w2" using fails_trans[OF w1(6) p(3)] .
  have f: "fails ver w w'" using f2 q3(1) q'(1) by (simp add: fails_def)
  have rq: "requests x = rq" "children x = ch" using x by simp_all
  have t: "trace w' = trace w @ tc
               @ map Resolved (first_occurrences
                   [r \<leftarrow> requests x. fut (reqs w r) = Pending \<and> Resolved r \<notin> set tc])
               @ [Closed e]"
    using tr w1(2) i q3(3) q'(3) by (simp add: own_def rq)
  have own: "\<forall>r \<in> set (requests x). fut (reqs w r) = Pending \<longrightarrow> fut (reqs w' r) = failed ver"
  proof (intro ballI impI)
    fix r assume r: "r \<in> set (requests x)" and pe: "fut (reqs w r) = Pending"
    have "fut (reqs w' r) \<noteq> Pending" using p(4) r x q3(1) q'(1) by simp
    then show "fut (reqs w' r) = failed ver" using f pe unfolding fails_def by metis
  qed
  have chd: "\<forall>c \<in> set (children x). \<forall>r \<in> set (requests c).
                 fut (reqs w r) = Pending \<longrightarrow> fut (reqs w' r) = failed ver"
  proof (intro ballI impI)
    fix c r assume cc: "c \<in> set (children x)" and r: "r \<in> set (requests c)"
      and pe: "fut (reqs w r) = Pending"
    have "fut (reqs w1 r) \<noteq> Pending" using w1(7) cc r x by simp
    then have "fut (reqs w2 r) \<noteq> Pending" using p(3) unfolding fails_def by metis
    then have "fut (reqs w' r) \<noteq> Pending" using q3(1) q'(1) by simp
    then show "fut (reqs w' r) = failed ver" using f pe unfolding fails_def by metis
  qed
  have wi: "wire w' = wire w" using p(1) w1(4) q3(2) q'(2) by simp
  have ic: "is_closed w' e" unfolding w'_def using is_closed_detach[where w = w3 and e = e] .
  have kids: "\<forall>c \<in> set (children x). Closed (eid c) \<in> set tc" using w1(3) rq by simp
  show "\<exists>w' tc. close ver e w = Some w'
           \<and> trace w' = trace w @ tc
               @ map Resolved (first_occurrences
                   [r \<leftarrow> requests x. fut (reqs w r) = Pending \<and> Resolved r \<notin> set tc])
               @ [Closed e]
           \<and> [a \<leftarrow> tc. \<exists>i. a = Closed i] = map (\<lambda>d. Closed (eid d)) (descendants x)
           \<and> (\<forall>a \<in> set tc. (\<exists>i. a = Closed i)
                 \<or> (\<exists>r. a = Resolved r \<and> r \<in> (\<Union>d \<in> set (descendants x). set (requests d))))
           \<and> (\<forall>c \<in> set (children x). Closed (eid c) \<in> set tc)
           \<and> (\<forall>r \<in> set (requests x). fut (reqs w r) = Pending \<longrightarrow> fut (reqs w' r) = failed ver)
           \<and> (\<forall>c \<in> set (children x). \<forall>r \<in> set (requests c).
                 fut (reqs w r) = Pending \<longrightarrow> fut (reqs w' r) = failed ver)
           \<and> wire w' = wire w
           \<and> is_closed w' e"
    using cl t cls ent kids own chd wi ic by blast
qed

lemmas tree_defs = example_tree_def close_def detach_def fail_request_def set_exception_def
  is_closed_def failed_def

lemma example_tree_close:
  "find_executor 1 (executor example_tree)
     = Some (Executor 1 True [Executor 2 True [] [] None None] [2] None None)
   \<and> close V0_3_3 1 example_tree \<noteq> None
   \<and> trace (the (close V0_3_3 1 example_tree)) = [Closed 2, Resolved 2, Closed 1]
   \<and> executor (the (close V0_3_3 1 example_tree)) = Executor 0 True [] [1] None None
   \<and> ready (the (close V0_3_3 1 example_tree)) = [Unlog_request 1 2]
   \<and> fut (reqs (the (close V0_3_3 1 example_tree)) 1) = Pending
   \<and> fut (reqs (the (close V0_3_3 1 example_tree)) 2) = Exception ConnectionError
   \<and> kind (reqs (the (close V0_3_3 1 example_tree)) 2) = Command
   \<and> rexecutor (reqs (the (close V0_3_3 1 example_tree)) 2) = 1
   \<and> wire (the (close V0_3_3 1 example_tree)) = []"
  by (simp add: tree_defs example_defs run_defs)

theorem close_is_terminal_witness:
  "find_executor 1 (executor example_tree)
     = Some (Executor 1 True [Executor 2 True [] [] None None] [2] None None)
   \<and> open_tree (Executor 1 True [Executor 2 True [] [] None None] [2] None None)
   \<and> close V0_3_3 1 example_tree \<noteq> None
   \<and> trace (the (close V0_3_3 1 example_tree)) = [Closed 2, Resolved 2, Closed 1]
   \<and> fut (reqs (the (close V0_3_3 1 example_tree)) 2) = Exception ConnectionError
   \<and> fut (reqs (the (close V0_3_3 1 example_tree)) 1) = Pending
   \<and> is_closed (the (close V0_3_3 1 example_tree)) 1
   \<and> close V0_3_3 1 (the (close V0_3_3 1 example_tree)) = Some (the (close V0_3_3 1 example_tree))
   \<and> fst (await V0_3_3 2 (the (close V0_3_3 1 example_tree))) = Raises ConnectionError
   \<and> wire (snd (await V0_3_3 2 (the (close V0_3_3 1 example_tree)))) = []"
proof -
  note t = close_is_terminal[of example_tree 1 V0_3_3]
  have o: "open_tree (Executor 1 True [Executor 2 True [] [] None None] [2] None None)" by simp
  have "\<exists>w' tc. close V0_3_3 1 example_tree = Some w' \<and> is_closed w' 1"
    using t example_tree_close o by blast
  then have c: "is_closed (the (close V0_3_3 1 example_tree)) 1" by auto
  note u = close_is_terminal[of "the (close V0_3_3 1 example_tree)" 1 V0_3_3]
  have d: "close V0_3_3 1 (the (close V0_3_3 1 example_tree)) = Some (the (close V0_3_3 1 example_tree))"
    using u c by blast
  have a: "fst (await V0_3_3 2 (the (close V0_3_3 1 example_tree))) = Raises ConnectionError
     \<and> wire (snd (await V0_3_3 2 (the (close V0_3_3 1 example_tree)))) = wire (the (close V0_3_3 1 example_tree))"
    using u c example_tree_close by simp
  show ?thesis using example_tree_close o c d a by simp
qed

section \<open>Disconnecting\<close>

lemma disconnect_cb_append_request:
  "disconnect_cb (update_executor e (append_request r) x) reason message = disconnect_cb x reason message"
proof (induction e "append_request r" x rule: update_executor.induct)
  case (1 i j c ch rq ccb dcb)
  show ?case
  proof (cases "i = j")
    case True
    then show ?thesis by (simp add: append_request_def)
  next
    case False
    then have "map (\<lambda>child. disconnect_cb child reason message) (map (update_executor i (append_request r)) ch)
        = map (\<lambda>child. disconnect_cb child reason message) ch"
      using 1 by auto
    then show ?thesis using False by (simp del: map_map)
  qed
qed

lemma add_done_callback_frame:
  "fut (reqs (add_done_callback r cb w) r') = fut (reqs w r')"
  "notifications (add_done_callback r cb w) = notifications w"
  "state (add_done_callback r cb w) = state w"
  "active_queue (add_done_callback r cb w) = active_queue w"
  "executor (add_done_callback r cb w) = executor w"
  "kind (reqs (add_done_callback r cb w) r') = kind (reqs w r')"
  "rexecutor (reqs (add_done_callback r cb w) r') = rexecutor (reqs w r')"
  by (simp_all add: add_done_callback_def)

lemma arm_timeout_frame:
  "fut (reqs (arm_timeout r w) r') = fut (reqs w r')"
  "notifications (arm_timeout r w) = notifications w"
  "state (arm_timeout r w) = state w"
  "active_queue (arm_timeout r w) = active_queue w"
  "executor (arm_timeout r w) = executor w"
  "kind (reqs (arm_timeout r w) r') = kind (reqs w r')"
  "rexecutor (reqs (arm_timeout r w) r') = rexecutor (reqs w r')"
  by (simp_all add: arm_timeout_def add_done_callback_def split: option.splits)

lemma wait_frame:
  "is_done w r \<Longrightarrow> fut (reqs (wait ver r w) r') = fut (reqs w r')"
  "notifications (wait ver r w) = notifications w"
  "state (wait ver r w) = state w"
  "active_queue (wait ver r w) = active_queue w"
  "executor (wait ver r w) = executor w"
  by (simp_all add: wait_def Let_def set_result_eq finish_def add_done_callback_def)

lemma connected_bit: "(s AND NOT FLAG_ACTIVE) AND FLAG_CONNECTED = s AND FLAG_CONNECTED"
  "(s OR FLAG_ACTIVE) AND FLAG_CONNECTED = s AND FLAG_CONNECTED"
  for s :: int
  by (simp_all add: FLAG_ACTIVE_def FLAG_CONNECTED_def and.assoc bit.conj_disj_distrib2)

lemma send_frame:
  "fut (reqs (snd (send ver r w)) r') = fut (reqs w r')"
  "notifications (snd (send ver r w)) = notifications w"
  "state (snd (send ver r w)) AND FLAG_CONNECTED = state w AND FLAG_CONNECTED"
  "(\<exists>q. active_queue w = Some q) \<Longrightarrow> (\<exists>q. active_queue (snd (send ver r w)) = Some q)"
  "executor (snd (send ver r w)) = executor w"
  by (auto simp: send_def Let_def connected_bit split: option.splits)

lemma send_returns:
  "state w AND FLAG_CONNECTED \<noteq> 0 \<Longrightarrow> active_queue w = Some q \<Longrightarrow> fst (send ver r w) = Returns ()"
  by (auto simp: send_def Let_def split: option.splits)

lemma log_request_frame:
  "is_done w r \<Longrightarrow> fut (reqs (snd (log_request ver e r w)) r') = fut (reqs w r')"
  "notifications (snd (log_request ver e r w)) = notifications w"
  "state (snd (log_request ver e r w)) AND FLAG_CONNECTED = state w AND FLAG_CONNECTED"
  "(\<exists>q. active_queue w = Some q) \<Longrightarrow> (\<exists>q. active_queue (snd (log_request ver e r w)) = Some q)"
  "disconnect_cb (executor (snd (log_request ver e r w))) reason message = disconnect_cb (executor w) reason message"
  by (simp_all add: log_request_def Let_def send_frame wait_frame add_done_callback_frame
      is_done_def disconnect_cb_append_request split: option.splits)

lemma await_frame:
  "is_done w r \<Longrightarrow> fut (reqs (snd (await ver r w)) r') = fut (reqs w r')"
  "notifications (snd (await ver r w)) = notifications w"
  "state (snd (await ver r w)) AND FLAG_CONNECTED = state w AND FLAG_CONNECTED"
  "(\<exists>q. active_queue w = Some q) \<Longrightarrow> (\<exists>q. active_queue (snd (await ver r w)) = Some q)"
  "disconnect_cb (executor (snd (await ver r w))) reason message = disconnect_cb (executor w) reason message"
proof -
  define w1 where "w1 = (if kind (reqs w r) = Passive then arm_timeout r w else w)"
  have a: "await ver r w =
     (if kind (reqs w r) = Welcome then future_await r w
      else (case log_request ver (rexecutor (reqs w1 r)) r w1 of
           (Returns u, w2) \<Rightarrow> future_await r w2
         | (Raises e, w2) \<Rightarrow> (Raises e, w2)
         | (Suspends, w2) \<Rightarrow> (Suspends, w2)))"
    by (simp add: await_def w1_def Let_def)
  have s: "snd (await ver r w) = (if kind (reqs w r) = Welcome then w
      else snd (log_request ver (rexecutor (reqs w1 r)) r w1))"
    unfolding a by (cases "log_request ver (rexecutor (reqs w1 r)) r w1"; cases "fst (log_request ver (rexecutor (reqs w1 r)) r w1)") auto
  have f: "fut (reqs w1 r') = fut (reqs w r')" "notifications w1 = notifications w"
    "state w1 = state w" "active_queue w1 = active_queue w" "executor w1 = executor w"
    for r' by (simp_all add: w1_def arm_timeout_frame)
  have d: "is_done w r \<Longrightarrow> is_done w1 r" using f(1) by (simp add: is_done_def)
  show "is_done w r \<Longrightarrow> fut (reqs (snd (await ver r w)) r') = fut (reqs w r')"
    using d by (simp add: s log_request_frame f)
  show "notifications (snd (await ver r w)) = notifications w"
    by (simp add: s log_request_frame f)
  show "state (snd (await ver r w)) AND FLAG_CONNECTED = state w AND FLAG_CONNECTED"
    by (simp add: s log_request_frame f)
  show "(\<exists>q. active_queue w = Some q) \<Longrightarrow> (\<exists>q. active_queue (snd (await ver r w)) = Some q)"
    using f(4) by (simp add: s log_request_frame)
  show "disconnect_cb (executor (snd (await ver r w))) reason message = disconnect_cb (executor w) reason message"
    by (simp add: s log_request_frame f)
qed

lemma log_request_outcome:
  assumes "state w AND FLAG_CONNECTED \<noteq> 0" and "active_queue w = Some q"
  shows "fst (log_request ver e r w) = Returns () \<or> fst (log_request ver e r w) = Raises ConnectionError"
proof -
  let ?w2 = "add_done_callback r (Unlog_request e r)
               (w\<lparr>executor := update_executor e (append_request r) (executor w)\<rparr>)"
  have "state ?w2 AND FLAG_CONNECTED \<noteq> 0" "active_queue ?w2 = Some q"
    using assms by (simp_all add: add_done_callback_frame)
  then have "fst (send ver r ?w2) = Returns ()" by (rule send_returns)
  then show ?thesis by (simp add: log_request_def Let_def split: option.splits)
qed

lemma await_done_outcome:
  assumes "is_done w r" and "fut (reqs w r) \<noteq> Cancelled"
    and "\<forall>e. fut (reqs w r) = Exception e \<longrightarrow> e = ConnectionError"
    and "state w AND FLAG_CONNECTED \<noteq> 0" and "active_queue w = Some q"
  shows "(\<exists>v. fst (await ver r w) = Returns v) \<or> fst (await ver r w) = Raises ConnectionError"
proof -
  have fa: "(\<exists>v. fst (future_await r w') = Returns v) \<or> fst (future_await r w') = Raises ConnectionError"
    if "fut (reqs w' r) = fut (reqs w r)" for w'
    using assms(1-3) that by (cases "fut (reqs w r)") (auto simp: future_await_def is_done_def)
  define w1 where "w1 = (if kind (reqs w r) = Passive then arm_timeout r w else w)"
  have f: "fut (reqs w1 r) = fut (reqs w r)" "state w1 = state w" "active_queue w1 = active_queue w"
    by (simp_all add: w1_def arm_timeout_frame)
  have d: "is_done w1 r" using f(1) assms(1) by (simp add: is_done_def)
  obtain out w2 where l: "log_request ver (rexecutor (reqs w1 r)) r w1 = (out, w2)"
    by (cases "log_request ver (rexecutor (reqs w1 r)) r w1") auto
  have o: "out = Returns () \<or> out = Raises ConnectionError"
    using log_request_outcome[where w = w1 and q = q and ver = ver and e = "rexecutor (reqs w1 r)" and r = r] assms(4,5) f l by simp
  have "fut (reqs w2 r) = fut (reqs w1 r)"
    using log_request_frame(1)[OF d, where ver = ver and e = "rexecutor (reqs w1 r)" and r' = r] l by simp
  then have w2: "fut (reqs w2 r) = fut (reqs w r)" using f by simp
  have a: "await ver r w =
     (if kind (reqs w r) = Welcome then future_await r w
      else (case log_request ver (rexecutor (reqs w1 r)) r w1 of
           (Returns u, w2) \<Rightarrow> future_await r w2
         | (Raises e, w2) \<Rightarrow> (Raises e, w2)
         | (Suspends, w2) \<Rightarrow> (Suspends, w2)))"
    by (simp add: await_def w1_def Let_def)
  show ?thesis
  proof (cases "kind (reqs w r) = Welcome")
    case True
    then show ?thesis using fa[of w] by (simp add: a)
  next
    case False
    then show ?thesis using o fa[OF w2] by (auto simp: a l)
  qed
qed

lemma disconnect_requests_settles:
  assumes "state w AND FLAG_CONNECTED \<noteq> 0" and "\<exists>q. active_queue w = Some q"
    and "\<forall>r \<in> set rs. fut (reqs w r) \<noteq> Cancelled \<and> (\<forall>e. fut (reqs w r) = Exception e \<longrightarrow> e = ConnectionError)"
  shows "fst (disconnect_requests ver rs w) = Returns ()
       \<and> (\<forall>r. fut (reqs (snd (disconnect_requests ver rs w)) r)
                = (if r \<in> set rs \<and> fut (reqs w r) = Pending then Exception ConnectionError
                   else fut (reqs w r)))
       \<and> notifications (snd (disconnect_requests ver rs w)) = notifications w
       \<and> (\<forall>reason message. disconnect_cb (executor (snd (disconnect_requests ver rs w))) reason message
                = disconnect_cb (executor w) reason message)"
  using assms
proof (induction rs arbitrary: w)
  case Nil
  then show ?case by simp
next
  case (Cons r rs)
  define w0 where "w0 = (if \<not> is_done w r then snd (set_exception r ConnectionError w) else w)"
  define w2 where "w2 = snd (await ver r w0)"
  have f0: "fut (reqs w0 x) = (if x = r \<and> fut (reqs w r) = Pending then Exception ConnectionError else fut (reqs w x))"
    for x by (simp add: w0_def set_exception_def is_done_def finish_def)
  have s0: "state w0 = state w" "active_queue w0 = active_queue w" "notifications w0 = notifications w"
    "executor w0 = executor w"
    by (simp_all add: w0_def set_exception_def finish_def)
  have d0: "is_done w0 r" using f0[of r] by (simp add: is_done_def)
  obtain q where q: "active_queue w0 = Some q" using Cons.prems(2) s0 by auto
  have c0: "state w0 AND FLAG_CONNECTED \<noteq> 0" using Cons.prems(1) s0 by simp
  have ok: "fut (reqs w0 r) \<noteq> Cancelled" "\<forall>e. fut (reqs w0 r) = Exception e \<longrightarrow> e = ConnectionError"
    using Cons.prems(3) f0[of r] by auto
  have out: "(\<exists>v. fst (await ver r w0) = Returns v) \<or> fst (await ver r w0) = Raises ConnectionError"
    by (rule await_done_outcome[OF d0 ok c0 q])
  have step: "disconnect_requests ver (r # rs) w = disconnect_requests ver rs w2"
    using out by (cases "await ver r w0") (auto simp: w0_def[symmetric] w2_def)
  have f2: "fut (reqs w2 x) = fut (reqs w0 x)" for x
    unfolding w2_def by (rule await_frame(1)[OF d0])
  have qe: "\<exists>q. active_queue w0 = Some q" using q by blast
  have s2: "notifications w2 = notifications w" "state w2 AND FLAG_CONNECTED \<noteq> 0"
    "\<exists>q. active_queue w2 = Some q"
    "disconnect_cb (executor w2) reason message = disconnect_cb (executor w) reason message"
    for reason message
    unfolding w2_def using c0 s0 by (simp_all add: await_frame(2,3,5) await_frame(4)[OF qe])
  have p2: "\<forall>x \<in> set rs. fut (reqs w2 x) \<noteq> Cancelled \<and> (\<forall>e. fut (reqs w2 x) = Exception e \<longrightarrow> e = ConnectionError)"
    using Cons.prems(3) by (auto simp: f2 f0)
  note ih = Cons.IH[OF s2(2,3) p2]
  show ?case unfolding step using ih by (auto simp: f2 f0 s2)
qed

lemma example_outstanding_eq:
  "active_queue example_outstanding = Some [1, 2] \<and> waiting_list example_outstanding = [3]
   \<and> state example_outstanding = STATE_ACTIVE
   \<and> fut (reqs example_outstanding 1) = Pending
   \<and> fut (reqs example_outstanding 2) = Pending
   \<and> fut (reqs example_outstanding 3) = Pending
   \<and> notifications example_outstanding = []
   \<and> executor example_outstanding = Executor 0 True [] [1, 2, 3] None (Some 0)"
  by (simp add: example_outstanding_def data_received_def subscription_defs example_defs run_defs)

lemmas outstanding_defs = example_outstanding_def data_received_def disconnect_from_server_def
  set_exception_def STATE_DISCONNECTED_def STATE_CONNECTING_def DISCONNECT_ERROR_def

text \<open>
  Claim C3. On a disconnect every request of the queue and of the waiting list that is not
  done is to fail with \<open>ConnectionError\<close>, and the disconnect callbacks are to be called
  once. The loop of 0.3.3 awaits each request and lets only \<open>ConnectionError\<close> pass: at a
  request of the queue that was cancelled, \<open>CancelledError\<close> leaves
  \<open>disconnect_from_server\<close>. The requests after it stay pending, the state stays
  \<open>STATE_ACTIVE\<close> and no callback is called.
\<close>

theorem disconnect_stops_at_cancelled:
  "active_queue example_cancelled = Some [1, 2] \<and> waiting_list example_cancelled = [3]
   \<and> state example_cancelled = STATE_ACTIVE
   \<and> fut (reqs example_cancelled 1) = Cancelled
   \<and> fut (reqs example_cancelled 2) = Pending
   \<and> fut (reqs example_cancelled 3) = Pending
   \<and> fst (disconnect_from_server V0_3_3 DISCONNECT_ERROR None example_cancelled) = Raises CancelledError
   \<and> fut (reqs (snd (disconnect_from_server V0_3_3 DISCONNECT_ERROR None example_cancelled)) 2) = Pending
   \<and> fut (reqs (snd (disconnect_from_server V0_3_3 DISCONNECT_ERROR None example_cancelled)) 3) = Pending
   \<and> notifications (snd (disconnect_from_server V0_3_3 DISCONNECT_ERROR None example_cancelled)) = []
   \<and> state (snd (disconnect_from_server V0_3_3 DISCONNECT_ERROR None example_cancelled)) = STATE_ACTIVE"
  by (simp add: example_cancelled_def cancel_def outstanding_defs subscription_defs example_defs run_defs)

text \<open>
  Where no request of the queue or of the waiting list is cancelled or has failed with
  another error, \<open>disconnect_from_server\<close> of 0.3.3 returns, the requests among them
  that were pending have failed with \<open>ConnectionError\<close> and no other request has changed,
  the disconnect callbacks of the executor tree have been called once with the reason and
  the message, and the client is disconnected, so that disconnecting again does nothing.
\<close>

theorem disconnect_fails_outstanding:
  assumes "state w AND FLAG_CONNECTED \<noteq> 0" and "active_queue w = Some q"
    and "\<forall>r \<in> set (q @ waiting_list w).
           fut (reqs w r) \<noteq> Cancelled \<and> (\<forall>e. fut (reqs w r) = Exception e \<longrightarrow> e = ConnectionError)"
  shows "fst (disconnect_from_server V0_3_3 reason message w) = Returns ()
       \<and> (\<forall>r. fut (reqs (snd (disconnect_from_server V0_3_3 reason message w)) r)
                = (if r \<in> set (q @ waiting_list w) \<and> fut (reqs w r) = Pending
                   then Exception ConnectionError else fut (reqs w r)))
       \<and> notifications (snd (disconnect_from_server V0_3_3 reason message w))
           = notifications w @ disconnect_cb (executor w) reason message
       \<and> state (snd (disconnect_from_server V0_3_3 reason message w)) = STATE_DISCONNECTED
       \<and> active_queue (snd (disconnect_from_server V0_3_3 reason message w)) = None
       \<and> disconnect_from_server V0_3_3 reason' message' (snd (disconnect_from_server V0_3_3 reason message w))
           = (Returns (), snd (disconnect_from_server V0_3_3 reason message w))"
proof -
  define w1 where "w1 = w\<lparr>protocol_disconnect_cb := False, transport_open := False, protocol_version := None\<rparr>"
  define w2 where "w2 = snd (disconnect_requests V0_3_3 (q @ waiting_list w) w1)"
  have s: "state w \<noteq> STATE_DISCONNECTED" "state w \<noteq> STATE_CONNECTING"
    using assms(1) by (auto simp: STATE_DISCONNECTED_def STATE_CONNECTING_def FLAG_ACTIVE_def FLAG_CONNECTED_def)
  have 1: "state w1 AND FLAG_CONNECTED \<noteq> 0" "\<exists>q. active_queue w1 = Some q"
    "\<forall>r \<in> set (q @ waiting_list w).
           fut (reqs w1 r) \<noteq> Cancelled \<and> (\<forall>e. fut (reqs w1 r) = Exception e \<longrightarrow> e = ConnectionError)"
    using assms by (simp_all add: w1_def)
  note l = disconnect_requests_settles[OF 1, of V0_3_3, folded w2_def]
  have r: "fst (disconnect_requests V0_3_3 (q @ waiting_list w) w1) = Returns ()" using l by simp
  have a1: "active_queue w1 = Some q" "waiting_list w1 = waiting_list w"
    using assms(2) by (simp_all add: w1_def)
  have d: "disconnect_from_server V0_3_3 reason message w =
      (Returns (), w2\<lparr>active_queue := None, state := STATE_DISCONNECTED,
                      notifications := notifications w2 @ disconnect_cb (executor w2) reason message\<rparr>)"
    using s a1 r
    by (cases "disconnect_requests V0_3_3 (q @ waiting_list w) w1")
       (simp add: disconnect_from_server_def Let_def w1_def[symmetric] w2_def)
  have f: "fut (reqs w1 x) = fut (reqs w x)" "notifications w1 = notifications w" "executor w1 = executor w"
    for x by (simp_all add: w1_def)
  show ?thesis unfolding d using l by (simp add: f disconnect_from_server_def)
qed

theorem disconnect_fails_outstanding_witness:
  "state example_outstanding AND FLAG_CONNECTED \<noteq> 0
   \<and> active_queue example_outstanding = Some [1, 2] \<and> waiting_list example_outstanding = [3]
   \<and> fut (reqs example_outstanding 1) = Pending
   \<and> fut (reqs example_outstanding 2) = Pending
   \<and> fut (reqs example_outstanding 3) = Pending
   \<and> fst (disconnect_from_server V0_3_3 DISCONNECT_ERROR None example_outstanding) = Returns ()
   \<and> fut (reqs (snd (disconnect_from_server V0_3_3 DISCONNECT_ERROR None example_outstanding)) 1)
       = Exception ConnectionError
   \<and> fut (reqs (snd (disconnect_from_server V0_3_3 DISCONNECT_ERROR None example_outstanding)) 2)
       = Exception ConnectionError
   \<and> fut (reqs (snd (disconnect_from_server V0_3_3 DISCONNECT_ERROR None example_outstanding)) 3)
       = Exception ConnectionError
   \<and> notifications (snd (disconnect_from_server V0_3_3 DISCONNECT_ERROR None example_outstanding))
       = [(0, DISCONNECT_ERROR, None)]
   \<and> state (snd (disconnect_from_server V0_3_3 DISCONNECT_ERROR None example_outstanding)) = STATE_DISCONNECTED"
proof -
  note e = example_outstanding_eq
  have 1: "state example_outstanding AND FLAG_CONNECTED \<noteq> 0"
    using e by (simp add: STATE_ACTIVE_def FLAG_CONNECTED_def FLAG_ACTIVE_def)
  have 2: "active_queue example_outstanding = Some [1, 2]" using e by simp
  have 3: "\<forall>r \<in> set ([1, 2] @ waiting_list example_outstanding).
           fut (reqs example_outstanding r) \<noteq> Cancelled
           \<and> (\<forall>e. fut (reqs example_outstanding r) = Exception e \<longrightarrow> e = ConnectionError)"
    using e by simp
  show ?thesis
    using disconnect_fails_outstanding[OF 1 2 3, of DISCONNECT_ERROR None] 1 e by simp
qed

text \<open>
  \<open>disconnect_from_server\<close> of 0.2.12 does not touch the requests: the pending ones stay
  pending, in the waiting list too, and no done callback is scheduled.
\<close>

theorem disconnect_leaves_requests:
  "reqs (snd (disconnect_from_server V0_2_12 reason message w)) = reqs w
   \<and> ready (snd (disconnect_from_server V0_2_12 reason message w)) = ready w
   \<and> waiting_list (snd (disconnect_from_server V0_2_12 reason message w)) = waiting_list w"
  by (simp add: disconnect_from_server_def Let_def split: option.splits)

section \<open>Subscriptions with a timeout\<close>








section \<open>A reply block and the head of the queue\<close>

lemma fut_finish_other: "x \<noteq> r \<Longrightarrow> fut (reqs (finish r s w) x) = fut (reqs w x)"
  by (simp add: finish_def)

lemma fut_set_result_other: "x \<noteq> r \<Longrightarrow> fut (reqs (set_result r v w) x) = fut (reqs w x)"
  by (simp add: set_result_eq finish_def)

lemma fut_set_exception_other:
  "set_exception r e w = (out, w') \<Longrightarrow> x \<noteq> r \<Longrightarrow> fut (reqs w' x) = fut (reqs w x)"
  by (auto simp: set_exception_def finish_def split: if_splits)

lemma fut_commandline_parser_other:
  "x \<noteq> r \<Longrightarrow> fut (reqs (snd (snd (commandline_parser success r acc ls w))) x) = fut (reqs w x)"
proof (induction ls arbitrary: acc)
  case Nil then show ?case by simp
next
  case (Cons l ls)
  show ?case using Cons
    by (auto simp: fut_set_result_other dest: fut_set_exception_other
        split: option.splits prod.splits sum.splits)
qed

lemma fut_welcome_parser_other:
  "x \<noteq> r \<Longrightarrow> fut (reqs (snd (snd (welcome_parser r ls w))) x) = fut (reqs w x)"
  by (simp add: welcome_parser_def fut_set_result_other split: list.splits)

lemma fut_commandlist_parser_other:
  "x \<noteq> r \<Longrightarrow> x \<notin> set cs \<Longrightarrow>
     fut (reqs (snd (snd (commandlist_parser r cs results ls w))) x) = fut (reqs w x)"
proof (induction cs arbitrary: results ls w)
  case Nil then show ?case by (simp add: fut_set_result_other split: list.splits)
next
  case (Cons c cs)
  have xc: "x \<noteq> c" "x \<notin> set cs" using Cons.prems by auto
  have a: "fut (reqs (snd (snd (commandline_parser LIST_SUCCESS c [] ls w))) x) = fut (reqs w x)"
    using xc(1) by (rule fut_commandline_parser_other)
  show ?case
  proof (cases "commandline_parser LIST_SUCCESS c [] ls w")
    case (fields out rest w1)
    then have q: "fut (reqs w1 x) = fut (reqs w x)" using a by simp
    show ?thesis using fields q Cons.IH[OF Cons.prems(1) xc(2), of _ rest w1] Cons.prems(1)
      by (cases out) (auto dest: fut_set_exception_other split: sum.splits option.splits prod.splits)
  qed
qed

lemma fut_request_process_reply_other:
  assumes "x \<noteq> r" and "x \<notin> set (commands (reqs w r))"
  shows "fut (reqs (snd (request_process_reply r ls w)) x) = fut (reqs w x)"
proof -
  have s: "snd (request_process_reply r ls w) = snd (snd (parser r ls w))"
    by (simp add: request_process_reply_def split: prod.splits outcome.splits)
  have "fut (reqs (snd (snd (parser r ls w))) x) = fut (reqs w x)"
    using assms
    by (simp add: parser_def fut_welcome_parser_other fut_commandline_parser_other
        fut_commandlist_parser_other split: kind.splits)
  then show ?thesis using s by simp
qed

text \<open>What \<open>_process_reply\<close> does to the requests is what the head's parser does.\<close>

lemma process_reply_reqs:
  assumes "active_queue w = Some (r # q)"
  shows "reqs (snd (process_reply rep w))
         = reqs (snd (request_process_reply r rep (w\<lparr>active_queue := Some q, trace := trace w @ [Replied r]\<rparr>)))"
  using assms
  by (cases "request_process_reply r rep (w\<lparr>active_queue := Some q, trace := trace w @ [Replied r]\<rparr>)";
      cases "fst (request_process_reply r rep (w\<lparr>active_queue := Some q, trace := trace w @ [Replied r]\<rparr>))")
     (auto simp: process_reply_def)

lemmas comments_defs = example_comments_def protocol_data_received_def run_ready_def idle_task_def
  split_char.simps event_def

text \<open>
  Claim C1. Replies are to reach the requests in the order of the writes, each block
  resolving the request at the head of the queue. The protocol object of 0.2.12 ends a
  block at every line that starts with \<open>OK\<close> or \<open>ACK\<close>, while the parsers end a reply at the
  line \<open>OK\<close> itself. With \<open>readcomments\<close> and \<open>currentsong\<close> written in this order, a reply
  to the first whose payload holds the line \<open>OKAY: 1\<close> is cut there: the first request gets
  the lines up to it and stays pending, and the rest of its reply resolves the second
  request, whose own reply finds the queue empty.
\<close>

theorem payload_line_ends_block:
  "written example_comments = [1, 2]
   \<and> active_queue example_comments = Some [1, 2]
   \<and> ready (protocol_data_received
        (''ARTIST: a'' @ [LF] @ ''OKAY: 1'' @ [LF] @ ''TITLE: t'' @ [LF] @ ''OK'' @ [LF]
           @ ''file: x.mp3'' @ [LF] @ ''OK'' @ [LF]) example_comments)
       = [Idle_task, Process_reply [''ARTIST: a'', ''OKAY: 1''], Process_reply [''TITLE: t'', ''OK''],
          Process_reply [''file: x.mp3'', ''OK'']]
   \<and> fut (reqs (run_ready V0_2_12 (protocol_data_received
        (''ARTIST: a'' @ [LF] @ ''OKAY: 1'' @ [LF] @ ''TITLE: t'' @ [LF] @ ''OK'' @ [LF]
           @ ''file: x.mp3'' @ [LF] @ ''OK'' @ [LF]) example_comments)) 1) = Pending
   \<and> fut (reqs (run_ready V0_2_12 (protocol_data_received
        (''ARTIST: a'' @ [LF] @ ''OKAY: 1'' @ [LF] @ ''TITLE: t'' @ [LF] @ ''OK'' @ [LF]
           @ ''file: x.mp3'' @ [LF] @ ''OK'' @ [LF]) example_comments)) 2)
       = Result (PDict [(''TITLE'', PStr ''t'')])
   \<and> active_queue (run_ready V0_2_12 (protocol_data_received
        (''ARTIST: a'' @ [LF] @ ''OKAY: 1'' @ [LF] @ ''TITLE: t'' @ [LF] @ ''OK'' @ [LF]
           @ ''file: x.mp3'' @ [LF] @ ''OK'' @ [LF]) example_comments)) = Some []"
  by (simp add: comments_defs example_defs run_defs)

text \<open>
  A block that is the reply to the pending request at the head of the queue resolves it:
  the greeting with the version, a command with the decoded payload at \<open>OK\<close> and with the
  \<open>ReplyError\<close> at an \<open>ACK\<close> line. Whatever the block, \<open>_process_reply\<close> takes the head off
  the queue and changes the outcome of no request other than the head and, for a command
  list, its members.
\<close>

theorem reply_resolves_head:
  assumes "active_queue w = Some (r # q)" and "fut (reqs w r) = Pending"
  shows "(kind (reqs w r) = Welcome \<longrightarrow>
            fut (reqs (snd (process_reply [WELCOME_PREFIX @ v] w)) r) = Result (PStr v))
       \<and> (kind (reqs w r) \<in> {CommandLine, Command, Idle}
            \<and> (\<forall>l \<in> set payload. field_line SUCCESS l)
            \<and> apply_transform (rtransform (reqs w r)) (map field payload) = Inr res \<longrightarrow>
            fut (reqs (snd (process_reply (payload @ [SUCCESS]) w)) r) = Result res)
       \<and> (kind (reqs w r) \<in> {CommandLine, Command, Idle}
            \<and> (\<forall>l \<in> set payload. field_line SUCCESS l)
            \<and> match_error ack = Some (e, n, c, m) \<longrightarrow>
            fut (reqs (snd (process_reply (payload @ [ack]) w)) r)
              = Exception (ReplyError e n c m (commandline (reqs w r))))
       \<and> (\<forall>x. x \<noteq> r \<and> x \<notin> set (commands (reqs w r)) \<longrightarrow>
            fut (reqs (snd (process_reply rep w)) x) = fut (reqs w x))
       \<and> active_queue (snd (process_reply rep w)) = Some q"
proof -
  define w0 where "w0 = w\<lparr>active_queue := Some q, trace := trace w @ [Replied r]\<rparr>"
  have r0: "reqs w0 = reqs w" by (simp add: w0_def)
  have pr: "reqs (snd (process_reply rep' w)) = reqs (snd (request_process_reply r rep' w0))" for rep'
    unfolding w0_def using process_reply_reqs[OF assms(1)] .
  have p0: "fut (reqs w0 r) = Pending" "\<not> is_done w0 r" using assms(2) r0 by (simp_all add: is_done_def)
  have 1: "fut (reqs (snd (process_reply [WELCOME_PREFIX @ v] w)) r) = Result (PStr v)"
    if "kind (reqs w r) = Welcome"
    using that p0 r0
    by (simp add: pr request_process_reply_def parser_def welcome_parser_def set_result_eq
        finish_def)
  have 2: "fut (reqs (snd (process_reply (payload @ [SUCCESS]) w)) r) = Result res"
    if k: "kind (reqs w r) \<in> {CommandLine, Command, Idle}"
      and f: "\<forall>l \<in> set payload. field_line SUCCESS l"
      and a: "apply_transform (rtransform (reqs w r)) (map field payload) = Inr res"
  proof -
    have a0: "apply_transform (rtransform (reqs w0 r)) ([] @ map field payload) = Inr res"
      using a r0 by simp
    have "commandline_parser SUCCESS r [] (payload @ SUCCESS # []) w0
          = (Returns (), [], member_done w0 (r, payload, res))"
      using commandline_parser_success[OF f match_error_SUCCESS a0] .
    then have "request_process_reply r (payload @ [SUCCESS]) w0 = (Returns (), member_done w0 (r, payload, res))"
      using k r0 by (auto simp: request_process_reply_def parser_def)
    then show ?thesis using member_done_fut_self[of w0 "(r, payload, res)"] p0 by (simp add: pr)
  qed
  have 3: "fut (reqs (snd (process_reply (payload @ [ack]) w)) r)
              = Exception (ReplyError e n c m (commandline (reqs w r)))"
    if k: "kind (reqs w r) \<in> {CommandLine, Command, Idle}"
      and f: "\<forall>l \<in> set payload. field_line SUCCESS l"
      and a: "match_error ack = Some (e, n, c, m)"
  proof -
    have "commandline_parser SUCCESS r [] (payload @ ack # []) w0
          = (Returns (), [], finish r (Exception (ReplyError e n c m (commandline (reqs w0 r)))) w0)"
      using commandline_parser_error[OF f a p0(2)] .
    then have "request_process_reply r (payload @ [ack]) w0
          = (Returns (), finish r (Exception (ReplyError e n c m (commandline (reqs w0 r)))) w0)"
      using k r0 by (auto simp: request_process_reply_def parser_def)
    then show ?thesis using r0 by (simp add: pr finish_def)
  qed
  have 4: "fut (reqs (snd (process_reply rep w)) x) = fut (reqs w x)"
    if "x \<noteq> r \<and> x \<notin> set (commands (reqs w r))" for x
    using that fut_request_process_reply_other[of x r w0 rep] r0 by (simp add: pr)
  have 5: "active_queue (snd (process_reply rep w)) = Some q"
    using process_reply_head[OF assms(1)] by simp
  show ?thesis using 1 2 3 4 5 by blast
qed

theorem reply_resolves_head_witness:
  "active_queue example_connection = Some [0]
   \<and> fut (reqs example_connection 0) = Pending
   \<and> kind (reqs example_connection 0) = Welcome
   \<and> fut (reqs (snd (process_reply [''OK MPD 0.23.5''] example_connection)) 0) = Result (PStr ''0.23.5'')
   \<and> active_queue example_comments = Some [1, 2]
   \<and> fut (reqs example_comments 1) = Pending
   \<and> kind (reqs example_comments 1) = Command
   \<and> fut (reqs (snd (process_reply [''ARTIST: a'', ''OK''] example_comments)) 1)
       = Result (PDict [(''ARTIST'', PStr ''a'')])
   \<and> fut (reqs (snd (process_reply [''ARTIST: a'', ''OK''] example_comments)) 2) = Pending
   \<and> active_queue (snd (process_reply [''ARTIST: a'', ''OK''] example_comments)) = Some [2]
   \<and> fut (reqs (snd (process_reply [''ACK [50@0] {readcomments} No such file''] example_comments)) 1)
       = Exception (ReplyError 50 0 ''readcomments'' ''No such file''
           (''readcomments '' @ [DQUOTE] @ ''x.flac'' @ [DQUOTE]))"
proof -
  have c: "active_queue example_connection = Some [0]" "fut (reqs example_connection 0) = Pending"
    "kind (reqs example_connection 0) = Welcome"
    by (simp_all add: example_defs)
  have q: "active_queue example_comments = Some [1, 2]" and p: "fut (reqs example_comments 1) = Pending"
    and k: "kind (reqs example_comments 1) = Command"
    and t: "rtransform (reqs example_comments 1) = Dict"
    and m: "commands (reqs example_comments 1) = []"
    and l: "commandline (reqs example_comments 1) = ''readcomments '' @ [DQUOTE] @ ''x.flac'' @ [DQUOTE]"
    and p2: "fut (reqs example_comments 2) = Pending"
    by (simp_all add: example_comments_def example_defs run_defs)
  have f: "\<forall>l \<in> set [''ARTIST: a'']. field_line SUCCESS l"
    by (simp add: field_line_def match_error_def strip_prefix_def SUCCESS_def DELIM_def)
  have a: "apply_transform Dict (map field [''ARTIST: a'']) = Inr (PDict [(''ARTIST'', PStr ''a'')])"
    by (simp add: field_def DELIM_def replace_def pydict_def dict_def)
  have e: "match_error ''ACK [50@0] {readcomments} No such file'' = Some (50, 0, ''readcomments'', ''No such file'')"
    by (simp add: match_error_def strip_prefix_def is_digit_def int_of_digits_def digit_val_def)
  have n: "\<forall>l \<in> set []. field_line SUCCESS l" by simp
  note w = reply_resolves_head[OF c(1,2), where v = "''0.23.5''"]
  note s = reply_resolves_head[OF q p, where payload = "[''ARTIST: a'']"
      and res = "PDict [(''ARTIST'', PStr ''a'')]" and rep = "[''ARTIST: a'', ''OK'']"]
  note x = reply_resolves_head[OF q p, where payload = "[]"
      and ack = "''ACK [50@0] {readcomments} No such file''" and e = 50 and n = 0
      and c = "''readcomments''" and m = "''No such file''"]
  have 1: "fut (reqs (snd (process_reply [''OK MPD 0.23.5''] example_connection)) 0) = Result (PStr ''0.23.5'')"
    using w c(3) by (simp add: WELCOME_PREFIX_def)
  have 2: "fut (reqs (snd (process_reply [''ARTIST: a'', ''OK''] example_comments)) 1)
       = Result (PDict [(''ARTIST'', PStr ''a'')])"
    using s k f a t by (simp add: SUCCESS_def)
  have 3: "fut (reqs (snd (process_reply [''ARTIST: a'', ''OK''] example_comments)) 2) = Pending"
    "active_queue (snd (process_reply [''ARTIST: a'', ''OK''] example_comments)) = Some [2]"
    using s m p2 by simp_all
  have 4: "fut (reqs (snd (process_reply [''ACK [50@0] {readcomments} No such file''] example_comments)) 1)
       = Exception (ReplyError 50 0 ''readcomments'' ''No such file''
           (''readcomments '' @ [DQUOTE] @ ''x.flac'' @ [DQUOTE]))"
    using x k e l by simp
  show ?thesis using c q p k 1 2 3 4 by simp
qed

end
